theory Spec2Isabelle
  imports
    Complex_Main
    "HOL-Library.Product_Lexorder"
    "HOL-Library.Multiset"
    "HOL-Library.AList"
    "HOL-Library.Sublist"
    "HOL-Library.Log_Nat"
begin

section \<open>The metrics table\<close>

text \<open>
  The raw metrics DataFrame of \<^verbatim>\<open>clean_data.py\<close> carries a three-level row index
  \<^verbatim>\<open>(taskid, model_idx, Epoch)\<close> and two-level column names. A row of the model holds its
  three index values and one cell per column; a missing value (NaN) is \<open>None\<close>. The table
  keeps its rows in the order of the DataFrame, duplicates included: nothing in pandas
  forces the index to be unique.
\<close>

type_synonym column = "string \<times> string"

record 'v row =
  taskid :: int
  model_idx :: int
  Epoch :: int
  cells :: "'v option list"

record 'v table =
  columns :: "column list"
  rows :: "'v row list"

type_synonym run_id = "int \<times> int"

definition run_of :: "'v row \<Rightarrow> run_id" where
  "run_of r = (taskid r, model_idx r)"

definition index_of :: "'v row \<Rightarrow> int \<times> int \<times> int" where
  "index_of r = (taskid r, model_idx r, Epoch r)"

text \<open>\<^verbatim>\<open>df.loc[mask]\<close> with a boolean mask aligned with the rows.\<close>

definition loc :: "bool list \<Rightarrow> 'a list \<Rightarrow> 'a list" where
  "loc msk xs = map snd (filter fst (zip msk xs))"

text \<open>
  \<^verbatim>\<open>df.drop(labels)\<close> on a MultiIndex: every label is located with \<^verbatim>\<open>get_loc\<close>, and a
  label with fewer levels than the index (after \<^verbatim>\<open>droplevel("Epoch")\<close>) locates every row
  that it prefixes. All located rows are deleted. This is the path that \<^verbatim>\<open>drop\<close> takes on an
  index without duplicate entries, which is what the row key of the metrics table is.
\<close>

datatype label = Full int int int | Partial int int

fun get_loc :: "label \<Rightarrow> 'v row \<Rightarrow> bool" where
  "get_loc (Full t m e) r = (taskid r = t \<and> model_idx r = m \<and> Epoch r = e)"
| "get_loc (Partial t m) r = (taskid r = t \<and> model_idx r = m)"

definition drop_labels :: "label list \<Rightarrow> 'v table \<Rightarrow> 'v table" where
  "drop_labels labels data =
     data\<lparr>rows := filter (\<lambda>r. \<not> list_ex (\<lambda>l. get_loc l r) labels) (rows data)\<rparr>"

fun droplevel_Epoch :: "label \<Rightarrow> label" where
  "droplevel_Epoch (Full t m e) = Partial t m"
| "droplevel_Epoch (Partial t m) = Partial t m"

section \<open>Stages 1 to 3 of \<^verbatim>\<open>clean\<close>\<close>

text \<open>Line 85: \<^verbatim>\<open>data = data.loc[data.index.get_level_values("Epoch") <= epochs]\<close>.\<close>

definition truncate_epochs :: "int \<Rightarrow> 'v table \<Rightarrow> 'v table" where
  "truncate_epochs epochs data =
     data\<lparr>rows := loc (map (\<lambda>r. Epoch r \<le> epochs) (rows data)) (rows data)\<rparr>"

text \<open>
  Modelled from the spec: \<^verbatim>\<open>metric_df_ops.get_nepochs\<close> is not among the sources. The
  spec has it compute, per run, the maximum Epoch value present; the forward-filling
  \<^verbatim>\<open>reindex\<close> then gives every row the value of its run.
\<close>

definition get_nepochs :: "'v table \<Rightarrow> (run_id \<times> int) list" where
  "get_nepochs df =
     map (\<lambda>run. (run, Max (set (map Epoch (filter (\<lambda>r. run_of r = run) (rows df))))))
       (remdups (map run_of (rows df)))"

definition reindex_ffill :: "(run_id \<times> int) list \<Rightarrow> 'v table \<Rightarrow> int option list" where
  "reindex_ffill nepochs data = map (\<lambda>r. map_of nepochs (run_of r)) (rows data)"

text \<open>Lines 87 to 91. A comparison with a missing value is false.\<close>

definition completeness_filter :: "int \<Rightarrow> bool \<Rightarrow> 'v table \<Rightarrow> 'v table" where
  "completeness_filter epochs keep_incomplete_runs data =
     (if keep_incomplete_runs then
        let nepochs = reindex_ffill (get_nepochs data) data;
            valid = map (\<lambda>n. case n of None \<Rightarrow> False | Some n \<Rightarrow> n \<le> epochs) nepochs
        in data\<lparr>rows := loc valid (rows data)\<rparr>
      else data)"

text \<open>Lines 94 to 101.\<close>

definition isna_any :: "'v row \<Rightarrow> bool" where
  "isna_any r = list_ex (\<lambda>c. c = None) (cells r)"

definition nan_filter :: "bool \<Rightarrow> 'v table \<Rightarrow> 'v table" where
  "nan_filter keep_nan_configs data =
     (let nan_check = map isna_any (rows data);
          nan_ind = map (\<lambda>r. Full (taskid r) (model_idx r) (Epoch r)) (loc nan_check (rows data));
          nan_ind = (if keep_nan_configs then remdups (map droplevel_Epoch nan_ind) else nan_ind)
      in drop_labels nan_ind data)"

section \<open>Stage 4: \<^verbatim>\<open>subsample_df\<close>\<close>

datatype error = KeyError | ValueError | OverflowError | InvalidHorizon | InvalidFraction

text \<open>
  The source raises only what pandas and \<^verbatim>\<open>math\<close> raise (\<open>KeyError\<close>, \<open>ValueError\<close>,
  \<open>OverflowError\<close>); \<open>InvalidHorizon\<close> and \<open>InvalidFraction\<close> are the errors the
  specification names, and no function below returns them.
\<close>

subsection \<open>Python floats\<close>

text \<open>
  \<^verbatim>\<open>subsample\<close> is a Python float: a finite double, given by its exact rational value, an
  infinity or NaN. The product of line 58 is a product of doubles, so it is rounded to
  the nearest double, ties to the even significand: 53 bits of precision, the smallest
  exponent \<open>-1022\<close> (below it the spacing stays \<open>2 powi -1074\<close>), and an infinity when the
  exponent of the rounded value reaches 1024.
\<close>

datatype pyfloat = Finite rat | PosInf | NegInf | NaN

definition round_half_even :: "rat \<Rightarrow> int" where
  "round_half_even y =
     (let f = \<lfloor>y\<rfloor>; d = y - of_int f
      in if d < 1 / 2 then f else if 1 / 2 < d then f + 1 else if even f then f else f + 1)"

text \<open>For \<open>x > 0\<close>, the exponent \<open>e\<close> with \<open>2 powi e \<le> x < 2 powi (e + 1)\<close>.\<close>

definition floor_log2 :: "rat \<Rightarrow> int" where
  "floor_log2 x =
     (let (a, b) = quotient_of x; k = bitlen a - bitlen b
      in if 2 powi k \<le> x then k else k - 1)"

definition double_round :: "rat \<Rightarrow> rat" where
  "double_round x =
     (if x = 0 then 0
      else let e = max (floor_log2 \<bar>x\<bar>) (- 1022); q = 2 powi (e - 52)
           in of_int (round_half_even (x / q)) * q)"

definition to_double :: "rat \<Rightarrow> pyfloat" where
  "to_double x =
     (let r = double_round x
      in if r = 0 then Finite 0
         else if floor_log2 \<bar>r\<bar> < 1024 then Finite r
         else if 0 < r then PosInf else NegInf)"

fun float_sgn :: "pyfloat \<Rightarrow> rat" where
  "float_sgn (Finite a) = sgn a"
| "float_sgn PosInf = 1"
| "float_sgn NegInf = - 1"
| "float_sgn NaN = 0"

text \<open>\<^verbatim>\<open>x * y\<close> on floats: an infinity times zero is NaN.\<close>

fun float_mul :: "pyfloat \<Rightarrow> pyfloat \<Rightarrow> pyfloat" where
  "float_mul NaN y = NaN"
| "float_mul x NaN = NaN"
| "float_mul (Finite a) (Finite b) = to_double (a * b)"
| "float_mul x y =
     (let s = float_sgn x * float_sgn y
      in if s = 0 then NaN else if 0 < s then PosInf else NegInf)"

text \<open>\<^verbatim>\<open>x < y\<close> on floats: every comparison with NaN is false.\<close>

fun float_less :: "pyfloat \<Rightarrow> pyfloat \<Rightarrow> bool" where
  "float_less NaN y = False"
| "float_less x NaN = False"
| "float_less (Finite a) (Finite b) = (a < b)"
| "float_less NegInf y = (y \<noteq> NegInf)"
| "float_less x PosInf = (x \<noteq> PosInf)"
| "float_less x y = False"

text \<open>\<^verbatim>\<open>math.floor\<close> refuses an infinity with \<open>OverflowError\<close> and NaN with \<open>ValueError\<close>.\<close>

fun math_floor :: "pyfloat \<Rightarrow> error + int" where
  "math_floor (Finite a) = Inr \<lfloor>a\<rfloor>"
| "math_floor NaN = Inl ValueError"
| "math_floor x = Inl OverflowError"

subsection \<open>Selecting the runs\<close>

text \<open>
  Modelled from the spec: \<^verbatim>\<open>metric_df_ops.get_configs\<close> is not among the sources. The
  spec has it extract one representative row per run, carrying the run's
  \<^verbatim>\<open>model_config\<close> columns; the representative is the first row of the run in the order
  of the table.
\<close>

fun first_per_run :: "'v row list \<Rightarrow> 'v row list" where
  "first_per_run [] = []"
| "first_per_run (r # rs) = r # first_per_run (filter (\<lambda>r'. run_of r' \<noteq> run_of r) rs)"

definition config_names :: "'v table \<Rightarrow> string list" where
  "config_names df = map snd (filter (\<lambda>c. fst c = ''model_config'') (columns df))"

definition model_config :: "'v table \<Rightarrow> 'v row \<Rightarrow> (string \<times> 'v option) list" where
  "model_config df r =
     map (\<lambda>(c, v). (snd c, v)) (filter (\<lambda>(c, v). fst c = ''model_config'') (zip (columns df) (cells r)))"

definition get_configs :: "'v table \<Rightarrow> (run_id \<times> (string \<times> 'v option) list) list" where
  "get_configs df = map (\<lambda>r. (run_of r, model_config df r)) (first_per_run (rows df))"

text \<open>
  \<^verbatim>\<open>configs[list(fidelity_params)]\<close>: the fidelity columns of one configuration. A cell that
  the row does not have reads as a missing value.
\<close>

definition fidelity_of :: "string list \<Rightarrow> (string \<times> 'v option) list \<Rightarrow> 'v option list" where
  "fidelity_of fidelity_params cfg =
     map (\<lambda>p. case map_of cfg p of None \<Rightarrow> None | Some v \<Rightarrow> v) fidelity_params"

text \<open>
  \<^verbatim>\<open>g.head(n)\<close> on a group-by: the first \<open>n\<close> members of every group, in the order of the
  frame; for a negative \<open>n\<close>, all but the last \<open>-n\<close> members of every group. The first
  argument of the two helpers is what is left of each group's quota.
\<close>

primrec head_quota :: "('k \<Rightarrow> nat) \<Rightarrow> ('a \<times> 'k) list \<Rightarrow> ('a \<times> 'k) list" where
  "head_quota q [] = []"
| "head_quota q (x # xs) =
     (if 0 < q (snd x) then x # head_quota (q(snd x := q (snd x) - 1)) xs
      else head_quota q xs)"

primrec skip_quota :: "('k \<Rightarrow> nat) \<Rightarrow> ('a \<times> 'k) list \<Rightarrow> ('a \<times> 'k) list" where
  "skip_quota q [] = []"
| "skip_quota q (x # xs) =
     (if 0 < q (snd x) then skip_quota (q(snd x := q (snd x) - 1)) xs
      else x # skip_quota q xs)"

definition groupby_head :: "int \<Rightarrow> ('a \<times> 'k) list \<Rightarrow> ('a \<times> 'k) list" where
  "groupby_head n xs =
     (if 0 \<le> n then head_quota (\<lambda>_. nat n) xs
      else rev (skip_quota (\<lambda>_. nat (- n)) (rev xs)))"

text \<open>
  The fidelity groups of a table: the representatives of its runs, keyed by their fidelity
  values. \<^verbatim>\<open>groupby\<close> leaves out every row with a missing value in a key.
\<close>

definition fidelity_groups :: "string list \<Rightarrow> 'v table \<Rightarrow> (run_id \<times> 'v option list) list" where
  "fidelity_groups fidelity_params df =
     filter (\<lambda>x. None \<notin> set (snd x))
       (map (\<lambda>(run, cfg). (run, fidelity_of fidelity_params cfg)) (get_configs df))"

definition group_count :: "('a \<times> 'k) list \<Rightarrow> 'k \<Rightarrow> nat" where
  "group_count g k = length (filter (\<lambda>x. snd x = k) g)"

definition group_counts :: "('a \<times> 'k) list \<Rightarrow> nat list" where
  "group_counts g = map (group_count g) (remdups (map snd g))"

text \<open>
  Lines 51 to 76. Selecting a column that the frame does not have raises \<open>KeyError\<close>, and
  grouping by no key raises \<open>ValueError\<close>. \<^verbatim>\<open>counts.min()\<close> is the smallest count as a
  double, or NaN on a frame without groups (on a frame without rows line 55 has raised
  \<open>ValueError\<close> before). When \<^verbatim>\<open>g.head\<close> selects no run, setting the column \<^verbatim>\<open>check\<close> of
  the empty frame \<^verbatim>\<open>idx2\<close> raises \<open>ValueError\<close> (line 67). The name \<^verbatim>\<open>check\<close> of the
  placeholder column is taken not to be a fidelity parameter.
\<close>

definition subsample_df :: "string list \<Rightarrow> 'v table \<Rightarrow> pyfloat \<Rightarrow> error + 'v table" where
  "subsample_df fidelity_params df subsample_frac =
     (if \<not> set fidelity_params \<subseteq> set (config_names df) then Inl KeyError
      else if fidelity_params = [] then Inl ValueError
      else
        let g = fidelity_groups fidelity_params df;
            counts = group_counts g;
            counts_min = (if counts = [] then NaN else to_double (of_nat (min_list counts)))
        in case math_floor (float_mul counts_min subsample_frac) of
             Inl e \<Rightarrow> Inl e
           | Inr min_sample_size \<Rightarrow>
               let configs = groupby_head min_sample_size g
               in if configs = [] then Inl ValueError
                  else
                    let sel = map (\<lambda>r. run_of r \<in> set (map fst configs)) (rows df)
                    in Inr (df\<lparr>rows := loc sel (rows df)\<rparr>))"

text \<open>Lines 104 and 105: \<^verbatim>\<open>if subsample < 1.0: data = subsample_df(...)\<close>.\<close>

definition subsample_stage :: "string list \<Rightarrow> 'v table \<Rightarrow> pyfloat \<Rightarrow> error + 'v table" where
  "subsample_stage fidelity_params data subsample =
     (if float_less subsample (Finite 1) then subsample_df fidelity_params data subsample
      else Inr data)"

text \<open>Lines 84 to 105 of \<^verbatim>\<open>clean\<close>: the four filtering stages in their order.\<close>

definition clean_filters ::
  "string list \<Rightarrow> 'v table \<Rightarrow> int \<Rightarrow> bool \<Rightarrow> bool \<Rightarrow> pyfloat \<Rightarrow> error + 'v table" where
  "clean_filters fidelity_params data epochs keep_incomplete_runs keep_nan_configs subsample =
     (let data = truncate_epochs epochs data;
          data = completeness_filter epochs keep_incomplete_runs data;
          data = nan_filter keep_nan_configs data
      in subsample_stage fidelity_params data subsample)"

section \<open>Stage 5: anonymizing the index\<close>

text \<open>
  Lines 108 to 114. \<^verbatim>\<open>unstack("Epoch")\<close> refuses an index with duplicate entries. It gives
  one row per run, the runs sorted, and for every epoch of the table one block of columns;
  where a run has no row at an epoch the block is filled with missing values. When there
  is such a gap, pandas promotes every column to a type that can hold a missing value
  (\<^verbatim>\<open>int64\<close> becomes \<^verbatim>\<open>float64\<close>, which rounds integers beyond \<open>2 ^ 53\<close>): \<open>promote\<close> is
  that conversion of a value, a parameter of the stage. It never makes a value missing.
\<close>

record 'v wide =
  windex :: "run_id list"
  wepochs :: "int list"
  wcolumns :: "column list"
  wvalues :: "'v option list list list"

definition unstack_Epoch :: "('v \<Rightarrow> 'v) \<Rightarrow> 'v table \<Rightarrow> error + 'v wide" where
  "unstack_Epoch promote data =
     (if \<not> distinct (map index_of (rows data)) then Inl ValueError
      else
        let runs = sort (remdups (map run_of (rows data)));
            eps = sort (remdups (map Epoch (rows data)));
            mask_all = (length (rows data) = length runs * length eps);
            cast = (if mask_all then (\<lambda>v. v) else promote)
        in Inr \<lparr>windex = runs, wepochs = eps, wcolumns = columns data,
                 wvalues = map (\<lambda>run. map (\<lambda>e.
                     case find (\<lambda>r. run_of r = run \<and> Epoch r = e) (rows data) of
                       None \<Rightarrow> replicate (length (columns data)) None
                     | Some r \<Rightarrow> map (map_option cast) (cells r)) eps) runs\<rparr>)"

text \<open>
  \<^verbatim>\<open>stack("Epoch")\<close> turns every block back into a row and, by its default, leaves out the
  rows in which every value is missing. On a wide frame without columns, which is what
  a table without rows or without columns unstacks to, it raises \<open>ValueError\<close>. After the
  two \<^verbatim>\<open>reset_index\<close> calls the \<^verbatim>\<open>ModelIndex\<close> and the epoch are columns of the group
  \<^verbatim>\<open>Groups\<close>.
\<close>

record 'v long_row =
  ModelIndex :: nat
  Groups_Epoch :: int
  lcells :: "'v option list"

definition stack_rows :: "int list \<Rightarrow> (nat \<times> 'v option list list) list \<Rightarrow> 'v long_row list" where
  "stack_rows eps wide =
     concat (map (\<lambda>(i, blocks).
       concat (map (\<lambda>(e, cs).
         if list_all (\<lambda>c. c = None) cs then []
         else [\<lparr>ModelIndex = i, Groups_Epoch = e, lcells = cs\<rparr>]) (zip eps blocks))) wide)"

definition stack_Epoch ::
  "column list \<Rightarrow> int list \<Rightarrow> (nat \<times> 'v option list list) list \<Rightarrow> error + 'v long_row list" where
  "stack_Epoch cols eps wide =
     (if cols = [] \<or> eps = [] then Inl ValueError else Inr (stack_rows eps wide))"

text \<open>
  The result is the copy \<^verbatim>\<open>idx\<close> of the original run index (line 109), whose position
  \<open>i\<close> holds the run that became \<^verbatim>\<open>ModelIndex\<close> \<open>i\<close>, and the long-format rows.
\<close>

definition anonymize ::
  "('v \<Rightarrow> 'v) \<Rightarrow> 'v table \<Rightarrow> error + (run_id list \<times> 'v long_row list)" where
  "anonymize promote data =
     (case unstack_Epoch promote data of
        Inl e \<Rightarrow> Inl e
      | Inr w \<Rightarrow>
          let idx = windex w;
              reset = zip [0..<length (wvalues w)] (wvalues w)
          in case stack_Epoch (wcolumns w) (wepochs w) reset of
               Inl e \<Rightarrow> Inl e
             | Inr long \<Rightarrow> Inr (idx, long))"

text \<open>
  Lines 84 to 114 of \<^verbatim>\<open>clean\<close>: the value is \<^verbatim>\<open>data\<close> as it stands after line 114, with
  the copy of the run index, and an error is an exception raised up to that line. Reading
  the input, the selection of the output columns (lines 116 to 125) and the writing of
  the result are not part of it.
\<close>

definition clean ::
  "('v \<Rightarrow> 'v) \<Rightarrow> string list \<Rightarrow> 'v table \<Rightarrow> int \<Rightarrow> bool \<Rightarrow> bool \<Rightarrow> pyfloat
     \<Rightarrow> error + (run_id list \<times> 'v long_row list)" where
  "clean promote fidelity_params data epochs keep_incomplete_runs keep_nan_configs subsample =
     (case clean_filters fidelity_params data epochs keep_incomplete_runs keep_nan_configs
             subsample of
        Inl e \<Rightarrow> Inl e
      | Inr data \<Rightarrow> anonymize promote data)"

section \<open>The surrogate benchmark of \<^verbatim>\<open>public_api.py\<close>\<close>

text \<open>
  The argument of \<^verbatim>\<open>Benchmark.__init__\<close> is any Python value; the ones that matter are
  \<^verbatim>\<open>None\<close>, a boolean (the default is \<^verbatim>\<open>True\<close>), a string and a \<^verbatim>\<open>Path\<close>. The file system
  and \<^verbatim>\<open>XGBSurrogate.load\<close> are parameters; the list of loaded paths is threaded through
  to record every call of the loader.
\<close>

datatype py_value = PyNone | PyBool bool | PyStr string | PyPath string

datatype py_error = AssertionError string | AttributeError | PyValueError | IndexError

record filesystem =
  path_exists :: "string \<Rightarrow> bool"
  path_is_dir :: "string \<Rightarrow> bool"

definition default_model_path :: py_value where
  "default_model_path = PyBool True"

definition Benchmark_init ::
  "filesystem \<Rightarrow> (string \<Rightarrow> 's) \<Rightarrow> py_value option \<Rightarrow> string list
     \<Rightarrow> (py_error + 's) \<times> string list" where
  "Benchmark_init fs load arg loaded =
     (let model_path = (case arg of None \<Rightarrow> default_model_path | Some v \<Rightarrow> v);
          model_path = (case model_path of PyStr s \<Rightarrow> PyPath s | v \<Rightarrow> v)
      in if model_path = PyNone then
           (Inl (AssertionError
              ''A path to a directory where a surrogate model was saved must be given.''), loaded)
         else
           (case model_path of
              PyPath p \<Rightarrow>
                if path_exists fs p \<and> path_is_dir fs p then (Inr (load p), loaded @ [p])
                else (Inl (AssertionError []), loaded)
            | _ \<Rightarrow> (Inl AttributeError, loaded)))"

text \<open>
  Modelled from the spec: \<^verbatim>\<open>XGBSurrogate\<close> is not among the sources. A surrogate is its
  \<^verbatim>\<open>predict\<close> function, from a one-row feature frame to the flat array of its outputs, and
  its \<^verbatim>\<open>label_headers\<close>. A feature is a field of the configuration or the epoch number.
\<close>

record ('c, 'e, 'o) surrogate =
  predict :: "(string \<times> ('c + 'e)) list \<Rightarrow> 'o list"
  label_headers :: "string list"

text \<open>
  Lines 31 and 32: the configuration, a dictionary in the order of its keys, becomes a
  one-row frame, and \<^verbatim>\<open>features.loc[:, "epoch"] = nepochs\<close> sets the column \<^verbatim>\<open>epoch\<close>: a
  new last column, or the column of that name when there is one.
\<close>

definition features_of :: "(string \<times> 'c) list \<Rightarrow> 'e \<Rightarrow> (string \<times> ('c + 'e)) list" where
  "features_of config nepochs =
     AList.update ''epoch'' (Inr nepochs) (map (\<lambda>(k, v). (k, Inl v)) config)"

text \<open>\<^verbatim>\<open>outputs.reshape(-1, n)\<close> on a flat array.\<close>

fun chunks :: "nat \<Rightarrow> nat \<Rightarrow> 'a list \<Rightarrow> 'a list list" where
  "chunks 0 n xs = []"
| "chunks (Suc k) n xs = take n xs # chunks k n (drop n xs)"

definition reshape :: "nat \<Rightarrow> 'a list \<Rightarrow> py_error + 'a list list" where
  "reshape n xs =
     (if n = 0 \<or> length xs mod n \<noteq> 0 then Inl PyValueError
      else Inr (chunks (length xs div n) n xs))"

text \<open>Lines 34 to 37; the result is a dictionary, kept in the order of insertion.\<close>

definition benchmark_surrogate ::
  "('c, 'e, 'o) surrogate \<Rightarrow> (string \<times> 'c) list \<Rightarrow> 'e \<Rightarrow> py_error + (string \<times> 'o) list" where
  "benchmark_surrogate surrogate config nepochs =
     (let features = features_of config nepochs;
          outputs = predict surrogate features
      in case reshape (length (label_headers surrogate)) outputs of
           Inl e \<Rightarrow> Inl e
         | Inr [] \<Rightarrow> Inl IndexError
         | Inr (row0 # _) \<Rightarrow>
             Inr (fold (\<lambda>(i, k) d. AList.update k (row0 ! i) d)
                       (enumerate 0 (label_headers surrogate)) []))"

section \<open>Example tables\<close>

text \<open>
  The values of the example tables are doubles (every column is \<^verbatim>\<open>float64\<close>), so the
  promotion of \<^verbatim>\<open>unstack\<close> leaves them as they are.
\<close>

definition mk_row :: "int \<Rightarrow> int \<Rightarrow> int \<Rightarrow> rat option list \<Rightarrow> rat row" where
  "mk_row t m e cs = \<lparr>taskid = t, model_idx = m, Epoch = e, cells = cs\<rparr>"

definition short_run :: "rat table" where
  "short_run = \<lparr>columns = [(''train'', ''loss'')], rows = [mk_row 0 0 1 [Some 7]]\<rparr>"

definition two_groups :: "rat table" where
  "two_groups = \<lparr>columns = [(''model_config'', ''N''), (''train'', ''loss'')],
     rows = [mk_row 0 0 0 [Some 1, Some 7], mk_row 0 0 1 [Some 1, Some 6],
             mk_row 0 1 0 [Some 1, Some 5],
             mk_row 0 2 0 [Some 2, Some 4], mk_row 0 2 1 [Some 2, Some 3],
             mk_row 0 3 0 [Some 2, Some 2],
             mk_row 0 4 0 [Some 2, Some 1]]\<rparr>"

definition nan_run :: "rat table" where
  "nan_run = \<lparr>columns = [(''train'', ''loss'')],
     rows = [mk_row 0 0 1 [Some 7], mk_row 0 0 2 [None], mk_row 0 0 3 [Some 5],
             mk_row 0 1 1 [Some 4]]\<rparr>"

definition nan_only :: "rat table" where
  "nan_only = \<lparr>columns = [(''train'', ''loss'')],
     rows = [mk_row 0 0 1 [None], mk_row 0 1 1 [None]]\<rparr>"

definition mk_long :: "nat \<Rightarrow> int \<Rightarrow> rat option list \<Rightarrow> rat long_row" where
  "mk_long i e cs = \<lparr>ModelIndex = i, Groups_Epoch = e, lcells = cs\<rparr>"

definition five_runs :: "run_id list" where
  "five_runs = [(0, 0), (0, 1), (0, 2), (0, 3), (0, 4)]"

definition epoch0_rows :: "rat long_row list" where
  "epoch0_rows =
     [mk_long 0 0 [Some 1, Some 7], mk_long 1 0 [Some 1, Some 5], mk_long 2 0 [Some 2, Some 4],
      mk_long 3 0 [Some 2, Some 2], mk_long 4 0 [Some 2, Some 1]]"

definition all_rows :: "rat long_row list" where
  "all_rows =
     [mk_long 0 0 [Some 1, Some 7], mk_long 0 1 [Some 1, Some 6], mk_long 1 0 [Some 1, Some 5],
      mk_long 2 0 [Some 2, Some 4], mk_long 2 1 [Some 2, Some 3], mk_long 3 0 [Some 2, Some 2],
      mk_long 4 0 [Some 2, Some 1]]"

definition toy_surrogate :: "(int, int, int) surrogate" where
  "toy_surrogate =
     \<lparr>predict = (\<lambda>fs. [int (length fs), 42]), label_headers = [''valid-acc'', ''runtime'']\<rparr>"

definition toy_fs :: filesystem where
  "toy_fs = \<lparr>path_exists = (\<lambda>p. p = ''models''), path_is_dir = (\<lambda>p. p = ''models'')\<rparr>"

definition half_sample :: "rat table" where
  "half_sample = two_groups
     \<lparr>rows := [mk_row 0 0 0 [Some 1, Some 7], mk_row 0 0 1 [Some 1, Some 6],
               mk_row 0 2 0 [Some 2, Some 4], mk_row 0 2 1 [Some 2, Some 3]]\<rparr>"

section \<open>Properties of the row filters\<close>

lemma loc_map: "loc (map P xs) xs = filter P xs"
  by (induction xs) (simp_all add: loc_def)

lemma rows_truncate_epochs:
  "rows (truncate_epochs epochs data) = filter (\<lambda>r. Epoch r \<le> epochs) (rows data)"
  by (simp add: truncate_epochs_def loc_map)

lemma columns_truncate_epochs: "columns (truncate_epochs epochs data) = columns data"
  by (simp add: truncate_epochs_def)

lemma rows_completeness_filter:
  "rows (completeness_filter epochs k data) =
     (if k then filter (\<lambda>r. case map_of (get_nepochs data) (run_of r) of
                                None \<Rightarrow> False | Some n \<Rightarrow> n \<le> epochs) (rows data)
      else rows data)"
  by (simp add: completeness_filter_def reindex_ffill_def Let_def loc_map[symmetric] comp_def)

lemma columns_completeness_filter: "columns (completeness_filter epochs k data) = columns data"
  by (simp add: completeness_filter_def Let_def)

lemma rows_drop_labels:
  "rows (drop_labels ls data) = filter (\<lambda>r. \<not> list_ex (\<lambda>l. get_loc l r) ls) (rows data)"
  by (simp add: drop_labels_def)

lemma located_full:
  "list_ex (\<lambda>l. get_loc l r) (map (\<lambda>r. Full (taskid r) (model_idx r) (Epoch r)) xs)
     \<longleftrightarrow> (\<exists>r' \<in> set xs. index_of r' = index_of r)"
  by (induction xs) (auto simp add: index_of_def)

lemma located_partial:
  "list_ex (\<lambda>l. get_loc l r)
       (remdups (map droplevel_Epoch (map (\<lambda>r. Full (taskid r) (model_idx r) (Epoch r)) xs)))
     \<longleftrightarrow> (\<exists>r' \<in> set xs. run_of r' = run_of r)"
  by (induction xs) (auto simp add: list_ex_iff run_of_def)

text \<open>
  What the two NaN policies keep: the default drops every row whose full index is the
  index of a row with a missing value; with \<^verbatim>\<open>keep_nan_configs\<close> every row of a run that
  has such a row is dropped.
\<close>

lemma rows_nan_filter_strict:
  "rows (nan_filter False data) =
     filter (\<lambda>r. \<not> (\<exists>r' \<in> set (filter isna_any (rows data)). index_of r' = index_of r))
       (rows data)"
  by (simp add: nan_filter_def Let_def rows_drop_labels loc_map located_full del: set_filter)

lemma rows_nan_filter_lenient:
  "rows (nan_filter True data) =
     filter (\<lambda>r. \<not> (\<exists>r' \<in> set (filter isna_any (rows data)). run_of r' = run_of r))
       (rows data)"
  by (simp add: nan_filter_def Let_def rows_drop_labels loc_map located_partial
      del: set_filter map_map)

lemma columns_nan_filter: "columns (nan_filter k data) = columns data"
  by (simp add: nan_filter_def Let_def drop_labels_def)

lemma length_filter_mono:
  "(\<And>x. x \<in> set xs \<Longrightarrow> P x \<Longrightarrow> Q x) \<Longrightarrow> length (filter P xs) \<le> length (filter Q xs)"
  by (induction xs) auto

lemma index_eq_run_eq: "index_of r' = index_of r \<Longrightarrow> run_of r' = run_of r"
  by (simp add: index_of_def run_of_def)

section \<open>Epoch truncation\<close>

text \<open>
  Claim C7. For every table \<open>T\<close> and horizons \<open>e1 \<le> e2\<close>, every row of the truncation of
  \<open>T\<close> at \<open>e1\<close> is a row of the truncation at \<open>e2\<close>; the smaller truncation is even a
  subsequence of the larger one.
\<close>

theorem truncate_epochs_monotone:
  assumes "e1 \<le> e2"
  shows "set (rows (truncate_epochs e1 T)) \<subseteq> set (rows (truncate_epochs e2 T))
       \<and> subseq (rows (truncate_epochs e1 T)) (rows (truncate_epochs e2 T))"
proof -
  have "filter (\<lambda>r. Epoch r \<le> e1) (rows T)
      = filter (\<lambda>r. Epoch r \<le> e1) (filter (\<lambda>r. Epoch r \<le> e2) (rows T))"
    using assms by (auto intro!: filter_cong)
  then have "subseq (rows (truncate_epochs e1 T)) (rows (truncate_epochs e2 T))"
    by (simp only: rows_truncate_epochs) (metis subseq_filter_left)
  moreover have "set (rows (truncate_epochs e1 T)) \<subseteq> set (rows (truncate_epochs e2 T))"
    using assms by (auto simp add: rows_truncate_epochs)
  ultimately show ?thesis by simp
qed

theorem truncate_epochs_monotone_witness:
  "(1::int) \<le> 2
   \<and> set (rows (truncate_epochs 1 nan_run)) \<subseteq> set (rows (truncate_epochs 2 nan_run))
   \<and> subseq (rows (truncate_epochs 1 nan_run)) (rows (truncate_epochs 2 nan_run))"
  using truncate_epochs_monotone [of 1 2 nan_run] by simp

section \<open>The completeness filter\<close>

text \<open>
  In the pipeline the filter comes after the truncation at the same horizon, and its test
  \<^verbatim>\<open>nepochs <= epochs\<close> then holds for every row: with either value of the flag the stage
  returns the truncated rows.
\<close>

lemma map_of_graph: "k \<in> set ks \<Longrightarrow> map_of (map (\<lambda>k. (k, f k)) ks) k = Some (f k)"
  by (induction ks) auto

lemma get_nepochs_row:
  assumes "r \<in> set (rows df)"
  shows "map_of (get_nepochs df) (run_of r)
       = Some (Max (set (map Epoch (filter (\<lambda>r'. run_of r' = run_of r) (rows df)))))"
  unfolding get_nepochs_def using assms by (intro map_of_graph) simp

lemma completeness_filter_after_truncation:
  "rows (completeness_filter e ki (truncate_epochs e d)) = rows (truncate_epochs e d)"
proof (cases ki)
  case False
  then show ?thesis by (simp add: rows_completeness_filter)
next
  case True
  let ?D = "truncate_epochs e d"
  have "map_of (get_nepochs ?D) (run_of r) = Some n \<Longrightarrow> n \<le> e" if "r \<in> set (rows ?D)" for r n
  proof -
    assume "map_of (get_nepochs ?D) (run_of r) = Some n"
    then have n: "n = Max (set (map Epoch (filter (\<lambda>r'. run_of r' = run_of r) (rows ?D))))"
      using get_nepochs_row [OF that] by simp
    have "set (map Epoch (filter (\<lambda>r'. run_of r' = run_of r) (rows ?D))) \<noteq> {}"
      using that by auto
    moreover have "\<forall>x \<in> set (map Epoch (filter (\<lambda>r'. run_of r' = run_of r) (rows ?D))). x \<le> e"
      by (auto simp add: rows_truncate_epochs)
    ultimately show "n \<le> e" unfolding n by (subst Max_le_iff) simp_all
  qed
  then have "filter (\<lambda>r. case map_of (get_nepochs ?D) (run_of r) of
                            None \<Rightarrow> False | Some n \<Rightarrow> n \<le> e) (rows ?D) = rows ?D"
    using get_nepochs_row [of _ ?D] by (intro filter_True) (auto split: option.splits)
  then show ?thesis using True by (simp add: rows_completeness_filter)
qed

text \<open>
  Claim C1. With \<^verbatim>\<open>keep_incomplete_runs\<close> not given, the filter should drop every run whose
  largest epoch is below the horizon. The guard of line 87 runs the filter only when the
  flag is given: here the only run of the table stops at epoch 1, the horizon is 5, the
  flag is off, and the four filtering stages return the table as it was.
\<close>

theorem incomplete_run_survives:
  "clean_filters [] short_run 5 False False (Finite 1) = Inr short_run
   \<and> get_nepochs short_run = [((0, 0), 1)]"
  by (simp add: clean_filters_def subsample_stage_def short_run_def mk_row_def
      truncate_epochs_def completeness_filter_def nan_filter_def loc_def isna_any_def drop_labels_def
      get_nepochs_def run_of_def)

section \<open>The NaN policies\<close>

text \<open>
  Claim C6. On every table, the filter with \<^verbatim>\<open>keep_nan_configs\<close> set (all rows of every run
  with a missing value are dropped) keeps at most as many rows as the default filter
  (only the rows whose index carries a missing value are dropped).
\<close>

theorem nan_lenient_le_strict:
  "length (rows (nan_filter True data)) \<le> length (rows (nan_filter False data))"
  unfolding rows_nan_filter_strict rows_nan_filter_lenient
  by (rule length_filter_mono) (blast dest: index_eq_run_eq)

theorem nan_lenient_le_strict_witness:
  "length (rows (nan_filter True nan_run)) \<le> length (rows (nan_filter False nan_run))
   \<and> map Epoch (rows (nan_filter True nan_run)) = [1]
   \<and> map Epoch (rows (nan_filter False nan_run)) = [1, 3, 1]"
  using nan_lenient_le_strict [of nan_run]
  by (simp add: nan_run_def mk_row_def nan_filter_def loc_def isna_any_def drop_labels_def)

section \<open>Properties of the double-precision product\<close>

lemma round_half_even_of_int [simp]: "round_half_even (of_int k) = k"
  by (simp add: round_half_even_def)

lemma round_half_even_le: "y \<le> of_int k \<Longrightarrow> round_half_even y \<le> k"
proof (cases "y = of_int k")
  case True
  then show ?thesis by simp
next
  case False
  assume "y \<le> of_int k"
  with False have "y < of_int k" by simp
  then have "\<lfloor>y\<rfloor> < k" by (simp add: floor_less_iff)
  then show ?thesis by (simp add: round_half_even_def Let_def)
qed

lemma round_half_even_nonneg: "0 \<le> y \<Longrightarrow> 0 \<le> round_half_even y"
proof -
  assume "0 \<le> y"
  then have "0 \<le> \<lfloor>y\<rfloor>" by simp
  then show ?thesis by (simp add: round_half_even_def Let_def)
qed

lemma floor_log2_lower:
  assumes "0 < x"
  shows "2 powi (floor_log2 x) \<le> x"
proof -
  obtain a b where ab: "quotient_of x = (a, b)" by (cases "quotient_of x")
  have b: "0 < b" using ab by (rule quotient_of_denom_pos)
  have x: "x = of_int a / of_int b" using ab by (rule quotient_of_div)
  have a: "0 < a" using assms b unfolding x by (simp add: zero_less_divide_iff)
  let ?k = "bitlen a - bitlen b"
  show ?thesis
  proof (cases "2 powi ?k \<le> x")
    case True
    then show ?thesis by (simp add: floor_log2_def ab)
  next
    case False
    have la: "1 \<le> bitlen a" and lb: "1 \<le> bitlen b"
      using a b by (simp_all add: bitlen_alt_def)
    have "(2::int) ^ nat (bitlen a - 1) \<le> a" using bitlen_bounds [OF a] by simp
    then have lo: "(2::rat) ^ nat (bitlen a - 1) \<le> of_int a"
      by (metis of_int_le_iff of_int_numeral of_int_power)
    have "b < 2 ^ nat (bitlen b)" using bitlen_bounds [OF b] by simp
    then have "of_int b < (2::rat) ^ nat (bitlen b)"
      by (metis of_int_less_iff of_int_numeral of_int_power)
    then have hi: "of_int b \<le> (2::rat) ^ nat (bitlen b)" by simp
    have k1: "?k - 1 = (bitlen a - 1) - bitlen b" by simp
    have "(2::rat) powi (?k - 1) = 2 powi (bitlen a - 1) / 2 powi (bitlen b)"
      unfolding k1 by (rule power_int_diff) simp
    also have "\<dots> = 2 ^ nat (bitlen a - 1) / 2 ^ nat (bitlen b)"
      using la lb by (simp add: power_int_nonneg_exp)
    also have "\<dots> \<le> of_int a / of_int b"
      using lo hi a b by (intro frac_le) simp_all
    also have "\<dots> = x" by (simp only: x)
    finally show ?thesis using False by (simp add: floor_log2_def ab)
  qed
qed

lemma floor_log2_less:
  assumes "0 < x" and "x < 2 powi n"
  shows "floor_log2 x < n"
proof (rule ccontr)
  assume "\<not> floor_log2 x < n"
  then have "n \<le> floor_log2 x" by simp
  then have "(2::rat) powi n \<le> 2 powi (floor_log2 x)" by (intro power_int_increasing) simp_all
  then show False using floor_log2_lower [OF assms(1)] assms(2) by simp
qed

lemma double_quantum:
  assumes "0 < x" and "x < 2 ^ 53"
  shows "\<exists>j. (2::rat) powi (max (floor_log2 \<bar>x\<bar>) (- 1022) - 52) = 1 / 2 ^ j"
proof -
  have "floor_log2 x < 53" using assms by (intro floor_log2_less) simp_all
  then have le: "max (floor_log2 \<bar>x\<bar>) (- 1022) - 52 \<le> 0" using assms(1) by simp
  define j where "j = nat (52 - max (floor_log2 \<bar>x\<bar>) (- 1022))"
  have "max (floor_log2 \<bar>x\<bar>) (- 1022) - 52 = - int j" using le by (simp add: j_def)
  then have "(2::rat) powi (max (floor_log2 \<bar>x\<bar>) (- 1022) - 52) = 1 / 2 ^ j"
    by (simp only: power_int_minus_divide power_int_of_nat)
  then show ?thesis by blast
qed

lemma double_round_nonneg: "0 \<le> x \<Longrightarrow> 0 \<le> double_round x"
  by (auto simp add: double_round_def Let_def intro!: mult_nonneg_nonneg round_half_even_nonneg
      divide_nonneg_nonneg)

lemma double_round_le_nat:
  assumes "0 \<le> x" and "x \<le> of_nat n" and "n < 2 ^ 53"
  shows "double_round x \<le> of_nat n"
proof (cases "x = 0")
  case True
  then show ?thesis by (simp add: double_round_def)
next
  case False
  then have pos: "0 < x" using assms(1) by simp
  have "of_nat n < (2::rat) ^ 53"
    using assms(3) by (metis of_nat_less_iff of_nat_numeral of_nat_power)
  then have "x < 2 ^ 53" using assms(2) by simp
  from double_quantum [OF pos this]
  obtain j where q: "(2::rat) powi (max (floor_log2 \<bar>x\<bar>) (- 1022) - 52) = 1 / 2 ^ j" by blast
  have "x * 2 ^ j \<le> of_nat n * 2 ^ j" using assms(2) by simp
  also have "\<dots> = of_int (int n * 2 ^ j)" by simp
  finally have "round_half_even (x * 2 ^ j) \<le> int n * 2 ^ j" by (rule round_half_even_le)
  then have "of_int (round_half_even (x * 2 ^ j)) \<le> (of_int (int n * 2 ^ j) :: rat)"
    by (simp only: of_int_le_iff)
  then have "of_int (round_half_even (x * 2 ^ j)) / 2 ^ j \<le> (of_nat n :: rat)"
    by (simp add: field_simps)
  then show ?thesis using False by (simp add: double_round_def Let_def q)
qed

lemma double_round_of_nat:
  assumes "n < 2 ^ 53"
  shows "double_round (of_nat n) = of_nat n"
proof (cases "n = 0")
  case True
  then show ?thesis by (simp add: double_round_def)
next
  case False
  then have pos: "0 < (of_nat n :: rat)" by simp
  have "of_nat n < (2::rat) ^ 53"
    using assms by (metis of_nat_less_iff of_nat_numeral of_nat_power)
  from double_quantum [OF pos this]
  obtain j where q: "(2::rat) powi (max (floor_log2 \<bar>of_nat n\<bar>) (- 1022) - 52) = 1 / 2 ^ j"
    by blast
  then have q': "(2::rat) powi (max (floor_log2 (of_nat n)) (- 1022) - 52) = 1 / 2 ^ j"
    by simp
  have "of_nat n * (2::rat) ^ j = of_int (int n * 2 ^ j)" by simp
  then have "round_half_even (of_nat n * 2 ^ j) = int n * 2 ^ j"
    by (simp only: round_half_even_of_int)
  then show ?thesis using False by (simp add: double_round_def Let_def q')
qed

lemma to_double_finite:
  assumes "0 \<le> double_round x" and "double_round x < 2 ^ 1024"
  shows "to_double x = Finite (double_round x)"
proof (cases "double_round x = 0")
  case True
  then show ?thesis by (simp add: to_double_def)
next
  case False
  then have pos: "0 < double_round x" using assms(1) by simp
  have "double_round x < 2 powi 1024" using assms(2) by simp
  then have "floor_log2 (double_round x) < 1024" using pos by (intro floor_log2_less)
  then show ?thesis using False pos by (simp add: to_double_def Let_def)
qed

lemma below_double_range:
  assumes "n < 2 ^ 53"
  shows "(of_nat n :: rat) < 2 ^ 1024"
proof -
  have "(of_nat n :: rat) < 2 ^ 53"
    using assms by (metis of_nat_less_iff of_nat_numeral of_nat_power)
  moreover have "(2::rat) ^ 53 \<le> 2 ^ 1024" by (rule power_increasing) simp_all
  ultimately show ?thesis by (rule less_le_trans)
qed

lemma to_double_of_nat:
  assumes "n < 2 ^ 53"
  shows "to_double (of_nat n) = Finite (of_nat n)"
  using to_double_finite [of "of_nat n"] below_double_range [OF assms]
  by (simp only: double_round_of_nat [OF assms] of_nat_0_le_iff)

lemma count_times_fraction:
  assumes "n < 2 ^ 53" and "0 \<le> q" and "q \<le> 1"
  shows "math_floor (float_mul (to_double (of_nat n)) (Finite q))
           = Inr \<lfloor>double_round (of_nat n * q)\<rfloor>"
    and "0 \<le> \<lfloor>double_round (of_nat n * q)\<rfloor>"
    and "\<lfloor>double_round (of_nat n * q)\<rfloor> \<le> int n"
proof -
  let ?r = "double_round (of_nat n * q)"
  have nonneg: "0 \<le> of_nat n * q" using assms(2) by simp
  have "of_nat n * q \<le> of_nat n * 1" using assms(3) by (intro mult_left_mono) simp_all
  then have le: "of_nat n * q \<le> of_nat n" by simp
  have r0: "0 \<le> ?r" using nonneg by (rule double_round_nonneg)
  have rn: "?r \<le> of_nat n" using nonneg le assms(1) by (rule double_round_le_nat)
  have "?r < 2 ^ 1024" using rn below_double_range [OF assms(1)] by (rule le_less_trans)
  then have "to_double (of_nat n * q) = Finite ?r" using r0 by (intro to_double_finite)
  then show "math_floor (float_mul (to_double (of_nat n)) (Finite q)) = Inr \<lfloor>?r\<rfloor>"
    by (simp add: to_double_of_nat [OF assms(1)])
  show "0 \<le> \<lfloor>?r\<rfloor>" using r0 by simp
  have "\<lfloor>?r\<rfloor> \<le> \<lfloor>(of_nat n :: rat)\<rfloor>" using rn by (rule floor_mono)
  then show "\<lfloor>?r\<rfloor> \<le> int n" by simp
qed

text \<open>
  The product of line 58 is not the exact one: with 50 runs and the fraction 0.58 the
  exact floor is 29 and the code's is 28; with 10 runs and 0.7 the code's floor is 7,
  while the exact product of 10 and the double nearest to 0.7 has the floor 6.
\<close>

lemma double_product_examples:
  "math_floor (float_mul (to_double 50) (to_double (29 / 50))) = Inr 28"
  "\<lfloor>50 * (29 / 50 :: rat)\<rfloor> = 29"
  "math_floor (float_mul (to_double 10) (to_double (7 / 10))) = Inr 7"
  "\<lfloor>10 * double_round (7 / 10)\<rfloor> = 6"
  by code_simp+

section \<open>Properties of the subsampling\<close>

lemma head_quota_count:
  "length (filter (\<lambda>x. snd x = k) (head_quota q xs)) = min (q k) (length (filter (\<lambda>x. snd x = k) xs))"
  by (induction xs arbitrary: q) auto

lemma head_quota_subset: "set (head_quota q xs) \<subseteq> set xs"
  by (induction xs arbitrary: q) auto

lemma head_quota_subseq: "subseq (head_quota q xs) xs"
  by (induction xs arbitrary: q) auto

lemma head_quota_selected:
  "distinct (map fst xs) \<Longrightarrow> filter (\<lambda>x. fst x \<in> fst ` set (head_quota q xs)) xs = head_quota q xs"
proof (induction xs arbitrary: q)
  case Nil
  then show ?case by simp
next
  case (Cons x xs)
  have notin: "fst x \<notin> fst ` set xs" using Cons.prems by simp
  show ?case
  proof (cases "0 < q (snd x)")
    case True
    let ?q = "q(snd x := q (snd x) - 1)"
    have "filter (\<lambda>y. fst y \<in> insert (fst x) (fst ` set (head_quota ?q xs))) xs
        = filter (\<lambda>y. fst y \<in> fst ` set (head_quota ?q xs)) xs"
    proof (rule filter_cong [OF refl])
      fix y assume "y \<in> set xs"
      then have "fst y \<in> fst ` set xs" by (rule imageI)
      then have "fst y \<noteq> fst x" using notin by metis
      then show "(fst y \<in> insert (fst x) (fst ` set (head_quota ?q xs)))
               = (fst y \<in> fst ` set (head_quota ?q xs))" by simp
    qed
    also have "\<dots> = head_quota ?q xs" using Cons.IH Cons.prems by simp
    finally show ?thesis using True by simp
  next
    case False
    have "fst x \<notin> fst ` set (head_quota q xs)"
      using notin head_quota_subset [of q xs] by blast
    then show ?thesis using False Cons.IH Cons.prems by simp
  qed
qed

lemma first_per_run_filter:
  "first_per_run (filter (\<lambda>r. run_of r \<in> S) rs) = filter (\<lambda>r. run_of r \<in> S) (first_per_run rs)"
proof (induction rs rule: first_per_run.induct)
  case 1
  then show ?case by simp
next
  case (2 r rs)
  let ?rest = "filter (\<lambda>r'. run_of r' \<noteq> run_of r) rs"
  have comm: "filter (\<lambda>r'. run_of r' \<noteq> run_of r) (filter (\<lambda>r. run_of r \<in> S) rs)
            = filter (\<lambda>r. run_of r \<in> S) ?rest"
    by (simp add: conj_commute)
  show ?case
  proof (cases "run_of r \<in> S")
    case True
    then show ?thesis using 2 comm by simp
  next
    case False
    have "filter (\<lambda>r. run_of r \<in> S) rs = filter (\<lambda>r. run_of r \<in> S) ?rest"
      using False by (auto intro!: filter_cong)
    then show ?thesis using False 2 by simp
  qed
qed

lemma set_first_per_run_subset: "set (first_per_run rs) \<subseteq> set rs"
  by (induction rs rule: first_per_run.induct) auto

lemma distinct_first_per_run: "distinct (map run_of (first_per_run rs))"
proof (induction rs rule: first_per_run.induct)
  case 1
  then show ?case by simp
next
  case (2 r rs)
  have "run_of r \<notin> run_of ` set (first_per_run (filter (\<lambda>r'. run_of r' \<noteq> run_of r) rs))"
    using set_first_per_run_subset [of "filter (\<lambda>r'. run_of r' \<noteq> run_of r) rs"] by auto
  then show ?case using 2 by simp
qed

lemma fidelity_groups_alt:
  "fidelity_groups ps df =
     filter (\<lambda>x. None \<notin> set (snd x))
       (map (\<lambda>r. (run_of r, fidelity_of ps (model_config df r))) (first_per_run (rows df)))"
  by (simp add: fidelity_groups_def get_configs_def comp_def)

lemma model_config_rows_update [simp]: "model_config (df\<lparr>rows := rs\<rparr>) r = model_config df r"
  by (simp add: model_config_def)

lemma distinct_fidelity_groups: "distinct (map fst (fidelity_groups ps df))"
proof -
  have "distinct (map fst (map (\<lambda>r. (run_of r, fidelity_of ps (model_config df r)))
          (first_per_run (rows df))))"
    using distinct_first_per_run [of "rows df"] by (simp add: comp_def)
  then show ?thesis unfolding fidelity_groups_alt by (rule distinct_map_filter)
qed

lemma fidelity_groups_select:
  "fidelity_groups ps (df\<lparr>rows := filter (\<lambda>r. run_of r \<in> S) (rows df)\<rparr>)
     = filter (\<lambda>x. fst x \<in> S) (fidelity_groups ps df)"
  by (simp add: fidelity_groups_alt first_per_run_filter filter_map comp_def conj_commute)

lemma min_list_le_group_count:
  assumes "k \<in> snd ` set g"
  shows "min_list (group_counts g) \<le> group_count g k"
proof -
  have "group_count g k \<in> set (group_counts g)"
    using assms by (simp add: group_counts_def)
  then show ?thesis by (metis min_list_Min Min_le List.finite_set empty_iff empty_set)
qed


lemma subsample_df_Inr:
  assumes "subsample_df ps df fr = Inr df'"
  shows "\<exists>n. math_floor (float_mul
               (if group_counts (fidelity_groups ps df) = [] then NaN
                else to_double (of_nat (min_list (group_counts (fidelity_groups ps df))))) fr)
             = Inr n
           \<and> groupby_head n (fidelity_groups ps df) \<noteq> []
           \<and> df' = df\<lparr>rows := filter (\<lambda>r. run_of r \<in> fst ` set (groupby_head n
                 (fidelity_groups ps df))) (rows df)\<rparr>"
    and "set ps \<subseteq> set (config_names df)" and "ps \<noteq> []"
  using assms
  by (auto simp add: subsample_df_def Let_def loc_map split: if_splits sum.splits)

lemma subsample_df_group_count:
  assumes ok: "subsample_df ps df (Finite q) = Inr df'"
    and q: "0 \<le> q" "q \<le> 1"
    and k: "k \<in> snd ` set (fidelity_groups ps df)"
    and small: "min_list (group_counts (fidelity_groups ps df)) < 2 ^ 53"
  shows "int (group_count (fidelity_groups ps df') k)
       = \<lfloor>double_round (of_nat (min_list (group_counts (fidelity_groups ps df))) * q)\<rfloor>"
proof -
  let ?g = "fidelity_groups ps df"
  let ?m = "min_list (group_counts ?g)"
  let ?n = "\<lfloor>double_round (of_nat ?m * q)\<rfloor>"
  have "group_counts ?g \<noteq> []" using k by (auto simp add: group_counts_def)
  then obtain n where n: "math_floor (float_mul (to_double (of_nat ?m)) (Finite q)) = Inr n"
      and df': "df' = df\<lparr>rows := filter (\<lambda>r. run_of r \<in> fst ` set (groupby_head n ?g)) (rows df)\<rparr>"
    using subsample_df_Inr(1) [OF ok] by auto
  have "n = ?n" using n count_times_fraction(1) [OF small q] by simp
  note df' = df' [unfolded this]
  have n0: "0 \<le> ?n" and nm: "?n \<le> int ?m"
    using count_times_fraction(2,3) [OF small q] by simp_all
  have head: "groupby_head ?n ?g = head_quota (\<lambda>_. nat ?n) ?g"
    using n0 by (simp add: groupby_head_def)
  have "fidelity_groups ps df' = filter (\<lambda>x. fst x \<in> fst ` set (head_quota (\<lambda>_. nat ?n) ?g)) ?g"
    using df' by (simp only: head fidelity_groups_select)
  also have "\<dots> = head_quota (\<lambda>_. nat ?n) ?g"
    by (rule head_quota_selected [OF distinct_fidelity_groups])
  finally have "group_count (fidelity_groups ps df') k = min (nat ?n) (group_count ?g k)"
    by (simp add: group_count_def head_quota_count)
  moreover have "?m \<le> group_count ?g k" by (rule min_list_le_group_count [OF k])
  ultimately show ?thesis using n0 nm by simp
qed

lemma subsample_df_rows_subseq:
  assumes "subsample_df ps df fr = Inr df'"
  shows "subseq (rows df') (rows df)" and "columns df' = columns df"
proof -
  from subsample_df_Inr(1) [OF assms] obtain n where
    eq: "df' = df\<lparr>rows := filter (\<lambda>r. run_of r \<in> fst ` set (groupby_head n
                 (fidelity_groups ps df))) (rows df)\<rparr>"
    by blast
  show "subseq (rows df') (rows df)" by (subst eq) simp
  show "columns df' = columns df" by (subst eq) simp
qed

lemma to_double_zero: "to_double 0 = Finite 0"
  by (simp add: to_double_def double_round_def)

lemma float_mul_zero: "float_mul c (Finite 0) = NaN \<or> float_mul c (Finite 0) = Finite 0"
  by (cases c) (simp_all add: to_double_zero)

lemma groupby_head_zero: "groupby_head 0 g = []"
proof -
  have "head_quota (\<lambda>_. 0) xs = []" for xs :: "('a \<times> 'b) list"
    by (induction xs) simp_all
  then show ?thesis by (simp add: groupby_head_def)
qed

lemma subsample_df_zero:
  "\<exists>e. subsample_df ps df (Finite 0) = Inl e \<and> (e = KeyError \<or> e = ValueError)"
  using float_mul_zero [of "if group_counts (fidelity_groups ps df) = [] then NaN
      else to_double (of_nat (min_list (group_counts (fidelity_groups ps df))))"]
  by (auto simp add: subsample_df_def Let_def groupby_head_zero)

lemma math_floor_errors: "math_floor x = Inl e \<Longrightarrow> e = ValueError \<or> e = OverflowError"
  by (cases x) auto

lemma subsample_df_errors:
  "subsample_df ps df fr = Inl e \<Longrightarrow> e = KeyError \<or> e = ValueError \<or> e = OverflowError"
  by (auto simp add: subsample_df_def Let_def dest: math_floor_errors split: if_splits sum.splits)

section \<open>Stratified subsampling\<close>

text \<open>
  Claim C4, amended. For every table whose smallest fidelity group has fewer than
  \<open>2 ^ 53\<close> runs and every fraction \<open>0 < q < 1\<close>, when the subsampling stage returns a table,
  every fidelity group of the input has in it exactly \<open>\<lfloor>m * q\<rfloor>\<close> runs, where \<open>m\<close> is the
  smallest number of runs of a fidelity group of the input and the product is the
  double-precision one of line 58. At \<open>q = 1\<close> the guard of line 104 skips the stage and
  the table is returned as it was, so the groups keep their own sizes.
\<close>

theorem subsample_stage_group_size:
  assumes "0 < q" and "q \<le> 1"
    and "subsample_stage ps df (Finite q) = Inr df'"
    and "k \<in> snd ` set (fidelity_groups ps df)"
    and "min_list (group_counts (fidelity_groups ps df)) < 2 ^ 53"
  shows "if q < 1
         then int (group_count (fidelity_groups ps df') k)
              = \<lfloor>double_round (of_nat (min_list (group_counts (fidelity_groups ps df))) * q)\<rfloor>
         else df' = df"
proof (cases "q < 1")
  case True
  then have "subsample_df ps df (Finite q) = Inr df'"
    using assms(3) by (simp add: subsample_stage_def)
  then show ?thesis using True assms(1,2,4,5) by (simp add: subsample_df_group_count)
next
  case False
  then show ?thesis using assms(3) by (simp add: subsample_stage_def)
qed

theorem subsample_stage_group_size_witness:
  "(0::rat) < 1 / 2 \<and> (1 / 2 :: rat) \<le> 1
   \<and> subsample_stage [''N''] two_groups (Finite (1 / 2)) = Inr half_sample
   \<and> [Some 2] \<in> snd ` set (fidelity_groups [''N''] two_groups)
   \<and> min_list (group_counts (fidelity_groups [''N''] two_groups)) = 2
   \<and> int (group_count (fidelity_groups [''N''] half_sample) [Some 2]) = 1"
proof -
  have a: "(0::rat) < 1 / 2" and b: "(1 / 2 :: rat) \<le> 1" by simp_all
  have c: "subsample_stage [''N''] two_groups (Finite (1 / 2)) = Inr half_sample" by code_simp
  have d: "[Some 2] \<in> snd ` set (fidelity_groups [''N''] two_groups)" by code_simp
  have m: "min_list (group_counts (fidelity_groups [''N''] two_groups)) = 2" by code_simp
  have e: "min_list (group_counts (fidelity_groups [''N''] two_groups)) < 2 ^ 53"
    unfolding m by simp
  have f: "\<lfloor>double_round (of_nat 2 * (1 / 2))\<rfloor> = 1" by code_simp
  show ?thesis using subsample_stage_group_size [OF a b c d e] a b c d m f by simp
qed

text \<open>
  At the fraction 1 the groups of the example table keep 2 and 3 runs, while the common
  target of the claim is \<open>\<lfloor>2 * 1\<rfloor> = 2\<close>.
\<close>

theorem subsample_stage_group_size_counterexample:
  "(0::rat) < 1 \<and> (1::rat) \<le> 1
   \<and> subsample_stage [''N''] two_groups (Finite 1) = Inr two_groups
   \<and> [Some 2] \<in> snd ` set (fidelity_groups [''N''] two_groups)
   \<and> group_count (fidelity_groups [''N''] two_groups) [Some 2] = 3
   \<and> min_list (group_counts (fidelity_groups [''N''] two_groups)) = 2
   \<and> math_floor (float_mul (to_double 2) (Finite 1)) = Inr 2"
  by code_simp

section \<open>Properties of the pipeline\<close>

lemma distinct_index_filters:
  assumes "distinct (map index_of (rows d))"
  shows "distinct (map index_of (rows (nan_filter kn (completeness_filter e ki (truncate_epochs e d)))))"
proof -
  have 1: "distinct (map index_of (rows (truncate_epochs e d)))"
    using assms by (simp add: rows_truncate_epochs distinct_map_filter)
  have 2: "distinct (map index_of (rows (completeness_filter e ki (truncate_epochs e d))))"
    using 1 by (simp add: rows_completeness_filter distinct_map_filter)
  show ?thesis
    using 2 by (cases kn) (simp_all add: rows_nan_filter_strict rows_nan_filter_lenient distinct_map_filter del: set_filter)
qed

lemma mset_concat_cong:
  "(\<And>x. x \<in> set xs \<Longrightarrow> mset (F x) = mset (G x)) \<Longrightarrow>
   mset (concat (map F xs)) = mset (concat (map G xs))"
  by (induction xs) simp_all

lemma mset_partition_by_key:
  "distinct ks \<Longrightarrow> f ` set xs \<subseteq> set ks \<Longrightarrow>
   mset (concat (map (\<lambda>k. filter (\<lambda>x. f x = k) xs) ks)) = mset xs"
proof (induction ks arbitrary: xs)
  case Nil
  then show ?case by simp
next
  case (Cons k ks)
  let ?rest = "filter (\<lambda>x. f x \<noteq> k) xs"
  have same: "filter (\<lambda>x. f x = k') xs = filter (\<lambda>x. f x = k') ?rest" if "k' \<in> set ks" for k'
    using that Cons.prems(1) by (auto intro!: filter_cong)
  have sub: "f ` set ?rest \<subseteq> set ks" using Cons.prems(2) by auto
  have dist: "distinct ks" using Cons.prems(1) by simp
  have "mset (concat (map (\<lambda>k. filter (\<lambda>x. f x = k) ?rest) ks)) = mset ?rest"
    by (rule Cons.IH [OF dist sub])
  moreover have "map (\<lambda>k. filter (\<lambda>x. f x = k) xs) ks = map (\<lambda>k. filter (\<lambda>x. f x = k) ?rest) ks"
    by (rule map_cong [OF refl]) (rule same)
  moreover have "mset (filter (\<lambda>x. f x = k) xs) + mset ?rest = mset xs"
    by (induction xs) simp_all
  ultimately show ?case by (simp only: list.map concat.simps mset_append)
qed

lemma filter_unique_key_aux: "f x \<notin> f ` set xs \<Longrightarrow> filter (\<lambda>y. f y = f x) xs = []"
  by (induction xs) auto

lemma filter_unique_key:
  "distinct (map f xs) \<Longrightarrow>
   filter (\<lambda>x. f x = k) xs = (case find (\<lambda>x. f x = k) xs of None \<Rightarrow> [] | Some x \<Rightarrow> [x])"
proof (induction xs)
  case Nil
  then show ?case by simp
next
  case (Cons x xs)
  show ?case
  proof (cases "f x = k")
    case True
    then have "filter (\<lambda>y. f y = k) xs = []"
      using Cons.prems filter_unique_key_aux [of f x xs] by simp
    then show ?thesis using True by simp
  next
    case False
    then show ?thesis using Cons by simp
  qed
qed

lemma find_index_of:
  "find (\<lambda>r. run_of r = run \<and> Epoch r = e) rs = find (\<lambda>r. index_of r = (fst run, snd run, e)) rs"
  by (rule arg_cong [where f = "\<lambda>P. find P rs"]) (auto simp add: run_of_def index_of_def)

lemma map_zip_upt:
  "(\<And>i. i < length xs \<Longrightarrow> G i (xs ! i) = H (xs ! i)) \<Longrightarrow>
   map (\<lambda>(i, x). G i x) (zip [0..<length xs] xs) = map H xs"
  by (rule nth_equalityI) simp_all

lemma mset_by_run_and_epoch:
  assumes "run_of ` set rs \<subseteq> set runs" and "distinct runs"
    and "Epoch ` set rs \<subseteq> set eps" and "distinct eps"
  shows "mset (concat (map (\<lambda>run. concat (map (\<lambda>e.
           filter (\<lambda>r. index_of r = (fst run, snd run, e)) rs) eps)) runs)) = mset rs"
proof -
  have inner: "mset (concat (map (\<lambda>e. filter (\<lambda>r. index_of r = (fst run, snd run, e)) rs) eps))
             = mset (filter (\<lambda>r. run_of r = run) rs)" for run
  proof -
    let ?xs = "filter (\<lambda>r. run_of r = run) rs"
    have "filter (\<lambda>r. index_of r = (fst run, snd run, e)) rs = filter (\<lambda>r. Epoch r = e) ?xs" for e
      by (auto simp add: index_of_def run_of_def prod_eq_iff intro!: filter_cong)
    moreover have "mset (concat (map (\<lambda>e. filter (\<lambda>r. Epoch r = e) ?xs) eps)) = mset ?xs"
      using assms(3,4) by (intro mset_partition_by_key) auto
    ultimately show ?thesis by simp
  qed
  have "mset (concat (map (\<lambda>run. concat (map (\<lambda>e.
           filter (\<lambda>r. index_of r = (fst run, snd run, e)) rs) eps)) runs))
      = mset (concat (map (\<lambda>run. filter (\<lambda>r. run_of r = run) rs) runs))"
    by (rule mset_concat_cong) (rule inner)
  also have "\<dots> = mset rs"
    using assms(1,2) by (intro mset_partition_by_key)
  finally show ?thesis .
qed

lemma nan_filter_no_nan: "r \<in> set (rows (nan_filter k d)) \<Longrightarrow> \<not> isna_any r"
  by (cases k) (auto simp add: rows_nan_filter_strict rows_nan_filter_lenient)

lemma set_rows_filters:
  "set (rows (nan_filter kn (completeness_filter e ki (truncate_epochs e d)))) \<subseteq> set (rows d)"
proof -
  have "set (rows (nan_filter kn x)) \<subseteq> set (rows x)" for x :: "'a table"
    by (cases kn) (auto simp add: rows_nan_filter_strict rows_nan_filter_lenient)
  moreover have "set (rows (completeness_filter e ki x)) \<subseteq> set (rows x)" for x :: "'a table"
    by (auto simp add: rows_completeness_filter)
  moreover have "set (rows (truncate_epochs e d)) \<subseteq> set (rows d)"
    by (auto simp add: rows_truncate_epochs)
  ultimately show ?thesis by blast
qed

lemma clean_filters_errors:
  "clean_filters ps d e ki kn fr = Inl err \<Longrightarrow>
   err = KeyError \<or> err = ValueError \<or> err = OverflowError"
  by (auto simp add: clean_filters_def subsample_stage_def Let_def
      dest: subsample_df_errors split: if_splits)

lemma anonymize_errors: "anonymize pr d = Inl err \<Longrightarrow> err = ValueError"
  by (auto simp add: anonymize_def unstack_Epoch_def stack_Epoch_def Let_def
      split: if_splits sum.splits)

lemma clean_errors:
  "clean pr ps d e ki kn fr = Inl err \<Longrightarrow>
   err = KeyError \<or> err = ValueError \<or> err = OverflowError"
  by (auto simp add: clean_def dest: clean_filters_errors anonymize_errors split: sum.splits)

lemma clean_filters_skip:
  "\<not> float_less fr (Finite 1) \<Longrightarrow> clean_filters ps d e ki kn fr
     = Inr (nan_filter kn (completeness_filter e ki (truncate_epochs e d)))"
  by (simp add: clean_filters_def subsample_stage_def Let_def)

section \<open>The filtering stages only remove rows\<close>

text \<open>
  Claim C10. Each of the four filtering stages (epoch truncation, completeness filter, NaN
  filter, subsampling) returns a subsequence of the rows it was given, under the same
  columns: every surviving row is the input row, with all its values, and the survivors
  keep their relative order.
\<close>

theorem filters_only_remove_rows:
  "subseq (rows (truncate_epochs e d)) (rows d) \<and> columns (truncate_epochs e d) = columns d
   \<and> subseq (rows (completeness_filter e ki d)) (rows d)
   \<and> columns (completeness_filter e ki d) = columns d
   \<and> subseq (rows (nan_filter kn d)) (rows d) \<and> columns (nan_filter kn d) = columns d
   \<and> (subsample_stage ps d fr = Inr d' \<longrightarrow> subseq (rows d') (rows d) \<and> columns d' = columns d)"
proof -
  have "subseq (rows (nan_filter kn d)) (rows d)"
    by (cases kn) (simp_all add: rows_nan_filter_strict rows_nan_filter_lenient del: set_filter)
  moreover have "subsample_stage ps d fr = Inr d' \<longrightarrow> subseq (rows d') (rows d) \<and> columns d' = columns d"
    by (auto simp add: subsample_stage_def subsample_df_rows_subseq split: if_splits)
  ultimately show ?thesis
    by (simp add: rows_truncate_epochs columns_truncate_epochs rows_completeness_filter
        columns_completeness_filter columns_nan_filter)
qed

theorem filters_only_remove_rows_witness:
  "subsample_stage [''N''] two_groups (Finite (1 / 2)) = Inr half_sample
   \<and> subseq (rows half_sample) (rows two_groups)
   \<and> subseq (rows (nan_filter False nan_run)) (rows nan_run)"
proof -
  have a: "subsample_stage [''N''] two_groups (Finite (1 / 2)) = Inr half_sample" by code_simp
  show ?thesis
    using filters_only_remove_rows [of 0 two_groups False False "[''N'']" "Finite (1 / 2)" half_sample]
      filters_only_remove_rows [of 0 nan_run False False "[]" "Finite 1" nan_run] a
    by simp
qed

section \<open>No validation of the configuration\<close>

lemma clean_filters_Inr:
  assumes "clean_filters ps d0 e ki kn fr = Inr d"
  shows "set (rows d) \<subseteq> set (rows d0)"
    and "\<And>r. r \<in> set (rows d) \<Longrightarrow> \<not> isna_any r \<and> Epoch r \<le> e"
    and "distinct (map index_of (rows d0)) \<Longrightarrow> distinct (map index_of (rows d))"
    and "columns d = columns d0"
proof -
  let ?d3 = "nan_filter kn (completeness_filter e ki (truncate_epochs e d0))"
  have stage: "subsample_stage ps ?d3 fr = Inr d"
    using assms by (simp add: clean_filters_def Let_def)
  have "\<exists>P. rows d = filter P (rows ?d3) \<and> columns d = columns ?d3"
  proof (cases "float_less fr (Finite 1)")
    case True
    then have "subsample_df ps ?d3 fr = Inr d" using stage by (simp add: subsample_stage_def)
    from subsample_df_Inr(1) [OF this] obtain n where
      "d = ?d3\<lparr>rows := filter (\<lambda>r. run_of r \<in> fst ` set (groupby_head n
            (fidelity_groups ps ?d3))) (rows ?d3)\<rparr>"
      by blast
    then have "rows d = filter (\<lambda>r. run_of r \<in> fst ` set (groupby_head n
            (fidelity_groups ps ?d3))) (rows ?d3) \<and> columns d = columns ?d3"
      by (rule ssubst) simp
    then show ?thesis by blast
  next
    case False
    then have "d = ?d3" using stage by (simp add: subsample_stage_def)
    then have "rows d = filter (\<lambda>_. True) (rows ?d3) \<and> columns d = columns ?d3" by simp
    then show ?thesis by blast
  qed
  then obtain P where P: "rows d = filter P (rows ?d3)" and cols: "columns d = columns ?d3"
    by blast
  have sub: "set (rows ?d3) \<subseteq> set (rows (truncate_epochs e d0))"
  proof -
    have "set (rows (nan_filter kn x)) \<subseteq> set (rows x)" for x :: "'a table"
      by (cases kn) (auto simp add: rows_nan_filter_strict rows_nan_filter_lenient)
    moreover have "set (rows (completeness_filter e ki x)) \<subseteq> set (rows x)" for x :: "'a table"
      by (auto simp add: rows_completeness_filter)
    ultimately show ?thesis by blast
  qed
  show "set (rows d) \<subseteq> set (rows d0)"
    using set_rows_filters [of kn e ki d0] by (auto simp add: P)
  show "\<not> isna_any r \<and> Epoch r \<le> e" if "r \<in> set (rows d)" for r
  proof -
    have r3: "r \<in> set (rows ?d3)" using that by (simp add: P)
    then have "r \<in> set (rows (truncate_epochs e d0))" using sub by blast
    then have "Epoch r \<le> e" by (simp add: rows_truncate_epochs)
    moreover have "\<not> isna_any r" using r3 by (rule nan_filter_no_nan)
    ultimately show ?thesis by simp
  qed
  show "distinct (map index_of (rows d))" if "distinct (map index_of (rows d0))"
    using distinct_index_filters [OF that, of kn e ki] by (simp add: P distinct_map_filter)
  show "columns d = columns d0"
    by (simp add: cols columns_nan_filter columns_completeness_filter columns_truncate_epochs)
qed

lemma stack_rows_epochs: "r \<in> set (stack_rows eps wide) \<Longrightarrow> Groups_Epoch r \<in> set eps"
  by (auto simp add: stack_rows_def dest!: set_zip_leftD split: if_splits)

lemma anonymize_epochs:
  assumes "anonymize pr d = Inr (idx, out)" and "r \<in> set out"
  shows "Groups_Epoch r \<in> Epoch ` set (rows d)"
proof -
  have "r \<in> set (stack_rows (sort (remdups (map Epoch (rows d))))
      (zip [0..<length (sort (remdups (map run_of (rows d))))]
        (map (\<lambda>run. map (\<lambda>e.
           case find (\<lambda>r. run_of r = run \<and> Epoch r = e) (rows d) of
             None \<Rightarrow> replicate (length (columns d)) None
           | Some r \<Rightarrow> map (map_option
               (if length (rows d) = length (sort (remdups (map run_of (rows d))))
                     * length (sort (remdups (map Epoch (rows d)))) then (\<lambda>v. v) else pr))
               (cells r)) (sort (remdups (map Epoch (rows d)))))
          (sort (remdups (map run_of (rows d)))))))"
    using assms
    by (auto simp add: anonymize_def unstack_Epoch_def stack_Epoch_def Let_def
        split: if_splits sum.splits)
  then have "Groups_Epoch r \<in> set (sort (remdups (map Epoch (rows d))))"
    by (rule stack_rows_epochs)
  then show ?thesis by simp
qed

text \<open>
  Claim C2, amended. No horizon is rejected: for every horizon, also one that is zero or
  negative, the code never fails with \<open>InvalidHorizon\<close>. It applies the horizon as it is
  given: the truncation keeps the rows with \<open>Epoch \<le> epochs\<close>, the later stages run on
  them, and every row that reaches the end of the reshaping has an epoch \<open>\<le> epochs\<close>.
\<close>

theorem horizon_never_rejected:
  "clean pr ps d e ki kn fr \<noteq> Inl InvalidHorizon
   \<and> rows (truncate_epochs e d) = filter (\<lambda>r. Epoch r \<le> e) (rows d)
   \<and> (clean pr ps d e ki kn fr = Inr (idx, out) \<longrightarrow> (\<forall>r \<in> set out. Groups_Epoch r \<le> e))"
proof -
  have "clean pr ps d e ki kn fr \<noteq> Inl InvalidHorizon"
    using clean_errors [of pr ps d e ki kn fr InvalidHorizon] by auto
  moreover have "Groups_Epoch r \<le> e"
    if res: "clean pr ps d e ki kn fr = Inr (idx, out)" and r: "r \<in> set out" for r
  proof -
    from res obtain d' where f: "clean_filters ps d e ki kn fr = Inr d'"
        and a: "anonymize pr d' = Inr (idx, out)"
      by (auto simp add: clean_def split: sum.splits)
    from anonymize_epochs [OF a r] obtain r' where "r' \<in> set (rows d')" "Groups_Epoch r = Epoch r'"
      by auto
    then show ?thesis using clean_filters_Inr(2) [OF f] by simp
  qed
  ultimately show ?thesis by (simp add: rows_truncate_epochs)
qed


theorem horizon_never_rejected_witness:
  "clean (\<lambda>v. v) [''N''] two_groups 0 False False (Finite 1) = Inr (five_runs, epoch0_rows)
   \<and> list_all (\<lambda>r. Groups_Epoch r \<le> 0) epoch0_rows
   \<and> map Epoch (rows (truncate_epochs 0 two_groups)) = [0, 0, 0, 0, 0]"
proof -
  have a: "clean (\<lambda>v. v) [''N''] two_groups 0 False False (Finite 1) = Inr (five_runs, epoch0_rows)"
    by code_simp
  have b: "map Epoch (filter (\<lambda>r. Epoch r \<le> 0) (rows two_groups)) = [0, 0, 0, 0, 0]"
    by code_simp
  show ?thesis
    using horizon_never_rejected [of "\<lambda>v. v" "[''N'']" two_groups 0 False False "Finite 1"
        five_runs epoch0_rows] a b
    by (simp add: list_all_iff)
qed

text \<open>
  With the horizon 0 the stages run and line 114 is reached with the five rows of epoch 0,
  re-indexed.
\<close>

theorem nonpositive_horizon_counterexample:
  "(0::int) \<le> 0
   \<and> clean (\<lambda>v. v) [''N''] two_groups 0 False False (Finite 1) = Inr (five_runs, epoch0_rows)"
  by code_simp

text \<open>
  Claim C3, amended. No fraction is rejected by a validation, and the code never fails
  with \<open>InvalidFraction\<close>. For every fraction that is not below 1, so also above 1, the
  guard of line 104 skips the subsampling and the code behaves as with the fraction 1.
  The fraction 0 passes the guard and fails inside \<^verbatim>\<open>subsample_df\<close>, after the first three
  stages, with the \<open>KeyError\<close> or \<open>ValueError\<close> of pandas: its target is 0, no run is
  selected, and line 67 raises.
\<close>

theorem fraction_never_rejected:
  "clean pr ps d e ki kn fr \<noteq> Inl InvalidFraction
   \<and> (\<not> float_less fr (Finite 1) \<longrightarrow>
        clean pr ps d e ki kn fr = clean pr ps d e ki kn (Finite 1))
   \<and> (\<exists>err. subsample_stage ps d (Finite 0) = Inl err \<and> (err = KeyError \<or> err = ValueError))"
proof -
  have "clean pr ps d e ki kn fr \<noteq> Inl InvalidFraction"
    using clean_errors [of pr ps d e ki kn fr InvalidFraction] by auto
  moreover have "\<exists>err. subsample_stage ps d (Finite 0) = Inl err
      \<and> (err = KeyError \<or> err = ValueError)"
    using subsample_df_zero [of ps d] by (simp add: subsample_stage_def)
  ultimately show ?thesis by (simp add: clean_def clean_filters_skip)
qed

theorem fraction_never_rejected_witness:
  "\<not> float_less (Finite 2) (Finite 1)
   \<and> clean (\<lambda>v. v) [''N''] two_groups 5 False False (Finite 2)
     = clean (\<lambda>v. v) [''N''] two_groups 5 False False (Finite 1)
   \<and> subsample_stage [''N''] two_groups (Finite 0) = Inl ValueError"
proof -
  have a: "subsample_stage [''N''] two_groups (Finite 0) = Inl ValueError" by code_simp
  show ?thesis
    using fraction_never_rejected [of "\<lambda>v. v" "[''N'']" two_groups 5 False False "Finite 2"] a
    by simp
qed

text \<open>
  With the fraction 2 the stages run and line 114 is reached with all seven rows; with the
  fraction 0 the subsampling stage raises \<open>ValueError\<close>.
\<close>

theorem fraction_out_of_range_counterexample:
  "(1::rat) < 2
   \<and> clean (\<lambda>v. v) [''N''] two_groups 5 False False (Finite 2) = Inr (five_runs, all_rows)
   \<and> (0::rat) \<le> 0
   \<and> subsample_stage [''N''] two_groups (Finite 0) = Inl ValueError"
  by code_simp

section \<open>Anonymizing preserves the rows\<close>

lemma stack_rows_unstacked:
  "stack_rows eps (zip [0..<length runs] (map (\<lambda>run. map (c run) eps) runs)) =
   concat (map (\<lambda>(i, run). concat (map (\<lambda>e.
       if list_all (\<lambda>v. v = None) (c run e) then []
       else [\<lparr>ModelIndex = i, Groups_Epoch = e, lcells = c run e\<rparr>]) eps))
     (zip [0..<length runs] runs))"
  by (simp add: stack_rows_def zip_map2 zip_same_conv_map comp_def case_prod_unfold cong: if_cong)

lemma rekeyed_stack:
  "map (\<lambda>r. (runs ! ModelIndex r, Groups_Epoch r, lcells r))
     (concat (map (\<lambda>(i, run). concat (map (\<lambda>e.
       if list_all (\<lambda>v. v = None) (c run e) then []
       else [\<lparr>ModelIndex = i, Groups_Epoch = e, lcells = c run e\<rparr>]) eps))
     (zip [0..<length runs] runs)))
   = concat (map (\<lambda>run. concat (map (\<lambda>e.
       if list_all (\<lambda>v. v = None) (c run e) then [] else [(run, e, c run e)]) eps)) runs)"
proof -
  have "map (\<lambda>(i, run). concat (map (\<lambda>e.
          if list_all (\<lambda>v. v = None) (c run e) then [] else [(runs ! i, e, c run e)]) eps))
        (zip [0..<length runs] runs)
      = map (\<lambda>run. concat (map (\<lambda>e.
          if list_all (\<lambda>v. v = None) (c run e) then [] else [(run, e, c run e)]) eps)) runs"
    by (rule map_zip_upt) simp
  then show ?thesis
    by (simp add: map_concat comp_def case_prod_unfold if_distrib [of "map _"] cong: if_cong)
qed

lemma block_of_row:
  assumes dist: "distinct (map index_of rs)"
    and full: "\<And>r. r \<in> set rs \<Longrightarrow> \<not> isna_any r \<and> cells r \<noteq> []"
  shows "(if list_all (\<lambda>v. v = None)
            (case find (\<lambda>r. run_of r = run \<and> Epoch r = e) rs of
               None \<Rightarrow> replicate n None | Some r \<Rightarrow> map (map_option f) (cells r)) then []
          else [(run, e, case find (\<lambda>r. run_of r = run \<and> Epoch r = e) rs of
               None \<Rightarrow> replicate n None | Some r \<Rightarrow> map (map_option f) (cells r))])
       = map (\<lambda>r. (run_of r, Epoch r, map (map_option f) (cells r)))
           (filter (\<lambda>r. index_of r = (fst run, snd run, e)) rs)"
proof (cases "find (\<lambda>r. index_of r = (fst run, snd run, e)) rs")
  case None
  then show ?thesis
    by (simp add: find_index_of filter_unique_key [OF dist] list_all_iff)
next
  case (Some r)
  then have r: "r \<in> set rs" "index_of r = (fst run, snd run, e)"
    by (auto simp add: find_Some_iff)
  then have "\<not> list_all (\<lambda>v. v = None) (map (map_option f) (cells r))"
    using full [of r] by (cases "cells r") (auto simp add: isna_any_def list_ex_iff)
  moreover have "run_of r = run" "Epoch r = e"
    using r(2) by (simp_all add: index_of_def run_of_def prod_eq_iff)
  ultimately show ?thesis
    using Some by (simp add: find_index_of filter_unique_key [OF dist])
qed

lemma stack_rows_index_bound:
  "r \<in> set (stack_rows eps (zip [0..<n] vs)) \<Longrightarrow> ModelIndex r < n"
  by (auto simp add: stack_rows_def dest!: set_zip_leftD split: if_splits)


lemma anonymize_rekeys:
  assumes dist: "distinct (map index_of (rows d))"
    and full: "\<And>r. r \<in> set (rows d) \<Longrightarrow> \<not> isna_any r \<and> cells r \<noteq> []"
    and nonempty: "rows d \<noteq> []" "columns d \<noteq> []"
  shows "\<exists>idx out cast. anonymize pr d = Inr (idx, out)
      \<and> distinct idx \<and> set idx = run_of ` set (rows d)
      \<and> ModelIndex ` set out = {0..<length idx}
      \<and> mset (map (\<lambda>r. (idx ! ModelIndex r, Groups_Epoch r, lcells r)) out)
        = mset (map (\<lambda>r. (run_of r, Epoch r, map (map_option cast) (cells r))) (rows d))"
proof -
  let ?rs = "rows d"
  let ?runs = "sort (remdups (map run_of ?rs))"
  let ?eps = "sort (remdups (map Epoch ?rs))"
  let ?cast = "if length ?rs = length ?runs * length ?eps then (\<lambda>v. v) else pr"
  let ?c = "\<lambda>run e. case find (\<lambda>r. run_of r = run \<and> Epoch r = e) ?rs of
                      None \<Rightarrow> replicate (length (columns d)) None
                    | Some r \<Rightarrow> map (map_option ?cast) (cells r)"
  let ?out = "stack_rows ?eps (zip [0..<length ?runs] (map (\<lambda>run. map (?c run) ?eps) ?runs))"
  let ?g = "\<lambda>r. (?runs ! ModelIndex r, Groups_Epoch r, lcells r)"
  let ?h = "\<lambda>r::'a row. (run_of r, Epoch r, map (map_option ?cast) (cells r))"
  have runs: "distinct ?runs" "set ?runs = run_of ` set ?rs" by simp_all
  have eps: "distinct ?eps" "set ?eps = Epoch ` set ?rs" by simp_all
  have "?eps \<noteq> []" using nonempty(1) eps(2) by (metis empty_set image_is_empty set_empty)
  then have res: "anonymize pr d = Inr (?runs, ?out)"
    using dist nonempty(2) by (simp add: anonymize_def unstack_Epoch_def stack_Epoch_def Let_def)
  have "map ?g ?out = concat (map (\<lambda>run. concat (map (\<lambda>e.
           map ?h (filter (\<lambda>r. index_of r = (fst run, snd run, e)) ?rs)) ?eps)) ?runs)"
    by (simp only: stack_rows_unstacked rekeyed_stack block_of_row [OF dist full])
  also have "\<dots> = map ?h (concat (map (\<lambda>run. concat (map (\<lambda>e.
           filter (\<lambda>r. index_of r = (fst run, snd run, e)) ?rs) ?eps)) ?runs))"
    by (simp add: map_concat comp_def)
  finally have "mset (map ?g ?out) = image_mset ?h (mset (concat (map (\<lambda>run. concat (map (\<lambda>e.
           filter (\<lambda>r. index_of r = (fst run, snd run, e)) ?rs) ?eps)) ?runs)))"
    by simp
  also have "\<dots> = image_mset ?h (mset ?rs)"
    using runs eps by (subst mset_by_run_and_epoch) simp_all
  finally have ms: "mset (map ?g ?out) = mset (map ?h ?rs)" by simp
  have dense: "ModelIndex ` set ?out = {0..<length ?runs}"
  proof (intro equalityI subsetI)
    fix i assume "i \<in> ModelIndex ` set ?out"
    then show "i \<in> {0..<length ?runs}" by (auto dest: stack_rows_index_bound)
  next
    fix i assume "i \<in> {0..<length ?runs}"
    then have i: "i < length ?runs" by simp
    then have "?runs ! i \<in> set ?runs" by (rule nth_mem)
    then obtain r where r: "r \<in> set ?rs" "run_of r = ?runs ! i" using runs(2) by auto
    have "?h r \<in> set (map ?h ?rs)" using r(1) by simp
    then have "?h r \<in> set (map ?g ?out)" using mset_eq_setD [OF ms] by (simp only:)
    then obtain out_row where o: "out_row \<in> set ?out" "?g out_row = ?h r" by auto
    have "ModelIndex out_row < length ?runs" using o(1) by (rule stack_rows_index_bound)
    moreover have "?runs ! ModelIndex out_row = ?runs ! i" using o(2) r(2) by simp
    ultimately have "ModelIndex out_row = i"
      using runs(1) i by (simp add: nth_eq_iff_index_eq)
    then show "i \<in> ModelIndex ` set ?out" using o(1) by blast
  qed
  show ?thesis using res runs ms dense by blast
qed

text \<open>
  Claim C5, amended. The table that enters the anonymizing stage is the result of the four
  filtering stages on a raw table. When the raw table has unique row keys and at least
  one column, its rows all as long as its header, and the table that enters has at least
  one row, the stage succeeds; the run identifiers \<open>idx\<close> it records are the distinct
  runs of its input, the \<^verbatim>\<open>ModelIndex\<close> values are exactly \<open>0, \<dots>, length idx - 1\<close>, and
  reading every \<^verbatim>\<open>ModelIndex\<close> back through \<open>idx\<close> gives the multiset of the
  (run, epoch) pairs of the input: the same number of rows and, for every run, the same
  epochs. On a table without rows the stage raises \<open>ValueError\<close>.
\<close>

theorem anonymize_preserves_rows:
  assumes "clean_filters ps d0 e ki kn fr = Inr d"
    and "rows d \<noteq> []"
    and "distinct (map index_of (rows d0))"
    and "columns d0 \<noteq> []"
    and "\<forall>r \<in> set (rows d0). length (cells r) = length (columns d0)"
  shows "\<exists>idx out. anonymize pr d = Inr (idx, out)
      \<and> distinct idx \<and> set idx = run_of ` set (rows d)
      \<and> ModelIndex ` set out = {0..<length idx}
      \<and> mset (map (\<lambda>r. (idx ! ModelIndex r, Groups_Epoch r)) out)
        = mset (map (\<lambda>r. (run_of r, Epoch r)) (rows d))
      \<and> length out = length (rows d)"
proof -
  have "distinct (map index_of (rows d))"
    using clean_filters_Inr(3) [OF assms(1)] assms(3) by simp
  moreover have "\<not> isna_any r \<and> cells r \<noteq> []" if "r \<in> set (rows d)" for r
  proof -
    have "r \<in> set (rows d0)" using that clean_filters_Inr(1) [OF assms(1)] by blast
    then have "length (cells r) = length (columns d0)" using assms(5) by blast
    then have "cells r \<noteq> []" using assms(4) by auto
    then show ?thesis using that clean_filters_Inr(2) [OF assms(1)] by blast
  qed
  moreover have "columns d \<noteq> []" using clean_filters_Inr(4) [OF assms(1)] assms(4) by simp
  ultimately obtain idx out cast where res: "anonymize pr d = Inr (idx, out)"
      "distinct idx" "set idx = run_of ` set (rows d)"
      "ModelIndex ` set out = {0..<length idx}"
      "mset (map (\<lambda>r. (idx ! ModelIndex r, Groups_Epoch r, lcells r)) out)
        = mset (map (\<lambda>r. (run_of r, Epoch r, map (map_option cast) (cells r))) (rows d))"
    using anonymize_rekeys [of d pr] assms(2) by blast
  have "image_mset (\<lambda>(run, e, cs). (run, e))
          (mset (map (\<lambda>r. (idx ! ModelIndex r, Groups_Epoch r, lcells r)) out))
      = image_mset (\<lambda>(run, e, cs). (run, e))
          (mset (map (\<lambda>r. (run_of r, Epoch r, map (map_option cast) (cells r))) (rows d)))"
    by (simp only: res(5))
  then have pairs: "mset (map (\<lambda>r. (idx ! ModelIndex r, Groups_Epoch r)) out)
      = mset (map (\<lambda>r. (run_of r, Epoch r)) (rows d))"
    by (simp add: comp_def multiset.map_comp)
  have "length out = length (rows d)"
    using mset_eq_length [OF pairs] by simp
  then show ?thesis using res(1-4) pairs by blast
qed

theorem anonymize_preserves_rows_witness:
  "clean_filters [''N''] two_groups 5 False False (Finite (1 / 2)) = Inr half_sample
   \<and> rows half_sample \<noteq> []
   \<and> distinct (map index_of (rows two_groups))
   \<and> columns two_groups \<noteq> []
   \<and> list_all (\<lambda>r. length (cells r) = length (columns two_groups)) (rows two_groups)
   \<and> (\<exists>idx out. anonymize (\<lambda>v. v) half_sample = Inr (idx, out)
      \<and> distinct idx \<and> set idx = run_of ` set (rows half_sample)
      \<and> ModelIndex ` set out = {0..<length idx}
      \<and> mset (map (\<lambda>r. (idx ! ModelIndex r, Groups_Epoch r)) out)
        = mset (map (\<lambda>r. (run_of r, Epoch r)) (rows half_sample))
      \<and> length out = length (rows half_sample))"
proof -
  have a: "clean_filters [''N''] two_groups 5 False False (Finite (1 / 2)) = Inr half_sample"
    by code_simp
  have b: "rows half_sample \<noteq> []" by code_simp
  have c: "distinct (map index_of (rows two_groups))" by code_simp
  have d: "columns two_groups \<noteq> []" by code_simp
  have e: "\<forall>r \<in> set (rows two_groups). length (cells r) = length (columns two_groups)"
    by code_simp
  have e': "list_all (\<lambda>r. length (cells r) = length (columns two_groups)) (rows two_groups)"
    using e by (simp only: list_all_iff)
  show ?thesis using anonymize_preserves_rows [OF a b c d e] a b c d e' by blast
qed

text \<open>
  Both rows of the example have a missing value, so the filters leave a table without
  rows, and \<^verbatim>\<open>stack\<close> raises on what it unstacks to.
\<close>

theorem anonymize_empty_counterexample:
  "clean_filters [] nan_only 5 False False (Finite 1) = Inr (nan_only\<lparr>rows := []\<rparr>)
   \<and> anonymize (\<lambda>v. v) (nan_only\<lparr>rows := []\<rparr>) = Inl ValueError"
  by code_simp

section \<open>The surrogate lookup\<close>

lemma update_fresh: "k \<notin> fst ` set al \<Longrightarrow> AList.update k v al = al @ [(k, v)]"
  by (induction al) auto

lemma keys_tagged: "fst ` set (map (\<lambda>(k, v). (k, f v)) config) = fst ` set config"
  by (force simp add: image_iff split: prod.splits)

lemma fold_update_enumerate:
  "distinct ks \<Longrightarrow> set ks \<inter> fst ` set acc = {} \<Longrightarrow>
   fold (\<lambda>(i, k) d. AList.update k (row ! i) d) (enumerate n ks) acc
     = acc @ map (\<lambda>(i, k). (k, row ! i)) (enumerate n ks)"
proof (induction ks arbitrary: n acc)
  case Nil
  then show ?case by simp
next
  case (Cons k ks)
  have fresh: "k \<notin> fst ` set acc" using Cons.prems(2) by auto
  have "set ks \<inter> fst ` set (acc @ [(k, row ! n)]) = {}"
    using Cons.prems by auto
  then show ?case
    using Cons.IH [of "acc @ [(k, row ! n)]" "Suc n"] Cons.prems(1) fresh
    by (simp add: update_fresh)
qed

lemma labelled_row:
  "length ks \<le> length row \<Longrightarrow>
   map (\<lambda>(i, k). (k, row ! i)) (enumerate 0 ks) = zip ks (take (length ks) row)"
  by (rule nth_equalityI) (simp_all add: nth_enumerate_eq)

lemma reshape_one_row:
  "0 < n \<Longrightarrow> length xs = n \<Longrightarrow> reshape n xs = Inr [xs]"
  by (simp add: reshape_def)

text \<open>
  Claim C8, amended. For every configuration that has no field named \<^verbatim>\<open>epoch\<close>, the
  feature row is the fields of the configuration followed by the epoch as one more
  feature; and when the model has distinct label names and returns one value per label
  for that row, the result has exactly one entry per label, in the order of the labels,
  holding the predicted values. A field \<^verbatim>\<open>epoch\<close> of the configuration is overwritten
  where it stands, and no feature is added.
\<close>

theorem benchmark_surrogate_result:
  assumes "''epoch'' \<notin> fst ` set config"
    and "distinct (label_headers s)" and "label_headers s \<noteq> []"
    and "length (predict s (features_of config nepochs)) = length (label_headers s)"
  shows "features_of config nepochs = map (\<lambda>(k, v). (k, Inl v)) config @ [(''epoch'', Inr nepochs)]
       \<and> benchmark_surrogate s config nepochs
         = Inr (zip (label_headers s)
                    (predict s (map (\<lambda>(k, v). (k, Inl v)) config @ [(''epoch'', Inr nepochs)])))"
proof -
  have feat: "features_of config nepochs
      = map (\<lambda>(k, v). (k, Inl v)) config @ [(''epoch'', Inr nepochs)]"
    unfolding features_of_def using assms(1) by (intro update_fresh) (simp add: keys_tagged del: set_map)
  let ?out = "predict s (features_of config nepochs)"
  have "reshape (length (label_headers s)) ?out = Inr [?out]"
    using assms(3,4) by (intro reshape_one_row) simp_all
  then have "benchmark_surrogate s config nepochs
      = Inr (fold (\<lambda>(i, k) d. AList.update k (?out ! i) d) (enumerate 0 (label_headers s)) [])"
    by (simp add: benchmark_surrogate_def Let_def)
  also have "\<dots> = Inr (zip (label_headers s) ?out)"
    using assms(2,4) by (simp add: fold_update_enumerate labelled_row)
  finally show ?thesis using feat by simp
qed

theorem benchmark_surrogate_result_witness:
  "''epoch'' \<notin> fst ` set [(''N'', 3::int), (''W'', 16)]
   \<and> distinct (label_headers toy_surrogate) \<and> label_headers toy_surrogate \<noteq> []
   \<and> length (predict toy_surrogate (features_of [(''N'', 3), (''W'', 16)] (200::int)))
       = length (label_headers toy_surrogate)
   \<and> features_of [(''N'', 3::int), (''W'', 16)] (200::int)
       = [(''N'', Inl 3), (''W'', Inl 16), (''epoch'', Inr 200)]
   \<and> benchmark_surrogate toy_surrogate [(''N'', 3), (''W'', 16)] 200
       = Inr [(''valid-acc'', 3), (''runtime'', 42)]"
proof -
  have a: "''epoch'' \<notin> fst ` set [(''N'', 3::int), (''W'', 16)]" by simp
  have b: "distinct (label_headers toy_surrogate)" and c: "label_headers toy_surrogate \<noteq> []"
    by (simp_all add: toy_surrogate_def)
  have d: "length (predict toy_surrogate (features_of [(''N'', 3), (''W'', 16)] (200::int)))
       = length (label_headers toy_surrogate)"
    by (simp add: toy_surrogate_def)
  show ?thesis
    using benchmark_surrogate_result [OF a b c d] a b c d by (simp add: toy_surrogate_def)
qed

text \<open>
  A configuration with the field \<^verbatim>\<open>epoch\<close>: the feature row has two features, not three,
  and the value 5 of the configuration is gone.
\<close>

theorem epoch_field_overwritten_counterexample:
  "features_of [(''epoch'', 5::int), (''N'', 3)] (200::int) = [(''epoch'', Inr 200), (''N'', Inl 3)]
   \<and> features_of [(''epoch'', 5::int), (''N'', 3)] (200::int)
       \<noteq> map (\<lambda>(k, v). (k, Inl v)) [(''epoch'', 5::int), (''N'', 3)] @ [(''epoch'', Inr 200)]"
  by (simp add: features_of_def)

section \<open>Constructing a benchmark\<close>

text \<open>
  Claim C9. Constructing a \<^verbatim>\<open>Benchmark\<close> without \<^verbatim>\<open>model_path\<close> always raises, and no
  surrogate is loaded. The default \<^verbatim>\<open>True\<close> is not \<^verbatim>\<open>None\<close>, so the error is never the
  assertion that a path must be given: it comes from the path-existence check of the
  next line, where a boolean has no \<^verbatim>\<open>exists\<close>.
\<close>

theorem default_model_path_fails:
  "Benchmark_init fs load None loaded = (Inl AttributeError, loaded)
   \<and> default_model_path \<noteq> PyNone
   \<and> (\<forall>msg. fst (Benchmark_init fs load None loaded) \<noteq> Inl (AssertionError msg))"
  by (simp add: Benchmark_init_def default_model_path_def)

theorem default_model_path_fails_witness:
  "Benchmark_init toy_fs (\<lambda>p. p) None [] = (Inl AttributeError, [])
   \<and> Benchmark_init toy_fs (\<lambda>p. p) (Some (PyStr ''models'')) [] = (Inr ''models'', [''models''])
   \<and> Benchmark_init toy_fs (\<lambda>p. p) (Some PyNone) []
      = (Inl (AssertionError ''A path to a directory where a surrogate model was saved must be given.''), [])"
  using default_model_path_fails [of toy_fs "\<lambda>p. p" "[]"]
  by (simp add: Benchmark_init_def toy_fs_def)

end
